(* ===== verification/Prelude.thy ===== *)
theory Prelude
  imports Complex_Main "HOL-Library.Word" "HOL-Library.Disjoint_Sets" "HOL-Library.List_Lexorder" "HOL-Library.Char_ord"
begin

text \<open>
  What every component shares: the machine-integer conventions of Go, the error values of
  package \<open>internal/run\<close>, and a few facts on lists.

  Go's \<open>int\<close>, \<open>int64\<close> and \<open>time.Duration\<close> are 64-bit two's complement. They are \<open>int\<close> here with
  the wrap-around written out by \<open>i64\<close> wherever an operation can leave the range. A
  \<open>time.Time\<close> is the number of nanoseconds since the epoch, as \<open>int\<close>; a lease generation
  (\<open>uint64\<close>) is a \<open>64 word\<close>.
\<close>

section \<open>Machine integers and time\<close>

type_synonym time = int
type_synonym duration = int
type_synonym u64 = "64 word"

definition i64 :: "int \<Rightarrow> int" where
  "i64 x = (x + 2 ^ 63) mod 2 ^ 64 - 2 ^ 63"

abbreviation second :: duration where
  "second \<equiv> 1000000000"

abbreviation minute :: duration where
  "minute \<equiv> 60 * second"

abbreviation hour :: duration where
  "hour \<equiv> 60 * minute"

text \<open>\<open>time.Duration(n) * time.Second\<close>: a wrapping 64-bit product.\<close>

definition seconds :: "int \<Rightarrow> duration" where
  "seconds n = i64 (n * second)"

lemma i64_id [simp]: "- (2 ^ 63) \<le> x \<Longrightarrow> x < 2 ^ 63 \<Longrightarrow> i64 x = x"
  by (simp add: i64_def)

lemma i64_range: "- (2 ^ 63) \<le> i64 x \<and> i64 x < 2 ^ 63"
proof -
  have "0 \<le> (x + 2 ^ 63) mod 2 ^ 64" and "(x + 2 ^ 63) mod 2 ^ 64 < 2 ^ 64" by simp_all
  then show ?thesis unfolding i64_def by simp
qed

text \<open>In the range a caller can mean (up to 292 years) the product does not wrap.\<close>

lemma seconds_exact: "0 \<le> n \<Longrightarrow> n \<le> 9223372036 \<Longrightarrow> seconds n = n * second"
  by (simp add: seconds_def)

section \<open>Lists\<close>

named_theorems list_facts \<open>small facts on lists that the components share\<close>

lemma list_all_concat [list_facts]: "list_all P (concat xss) = list_all (list_all P) xss"
  by (induction xss) auto

lemma take_length_append_iff [list_facts]: "take (length p) (p @ s) = p"
  by simp

section \<open>Ownership\<close>

text \<open>
  Two small theories of who owns what: an injective map from owners to single resources, and a
  disjoint family of resource sets.
\<close>

lemma ran_remove: "inj_on f (dom f) \<Longrightarrow> ran (f(k := None)) = ran f - set_option (f k)"
  by (auto simp: ran_def dom_def inj_on_def)

lemma inj_remove: "inj_on f (dom f) \<Longrightarrow> inj_on (f(k := None)) (dom f - {k})"
  by (auto simp: inj_on_def dom_def)

lemma ran_replace: "inj_on f (dom f) \<Longrightarrow> ran (f(k \<mapsto> a)) = insert a (ran f - set_option (f k))"
  by (auto simp: ran_def dom_def inj_on_def)

lemma inj_replace: "inj_on f (dom f) \<Longrightarrow> a \<notin> ran f \<Longrightarrow> inj_on (f(k \<mapsto> a)) (insert k (dom f))"
  by (auto simp: inj_on_def dom_def ran_def)

lemma union_remove: "disjoint_family g \<Longrightarrow> (\<Union>k. (g(k0 := {})) k) = (\<Union>k. g k) - g k0"
  by (auto simp: disjoint_family_on_def split: if_splits)

lemma disjoint_remove: "disjoint_family g \<Longrightarrow> disjoint_family (g(k0 := {}))"
  by (auto simp: disjoint_family_on_def)

lemma union_insert: "(\<Union>k. (g(k0 := insert x (g k0))) k) = insert x (\<Union>k. g k)"
  by (auto split: if_splits)

lemma disjoint_insert:
  "disjoint_family g \<Longrightarrow> x \<notin> (\<Union>k. g k) \<Longrightarrow> disjoint_family (g(k0 := insert x (g k0)))"
  by (auto simp: disjoint_family_on_def)

end
