(* ===== verification/Go_Strings.thy ===== *)
theory Go_Strings
  imports Prelude
begin

text \<open>
  The part of Go's \<open>strings\<close>, \<open>strconv\<close> and \<open>fmt\<close> packages the daemon uses. A Go string is a
  sequence of bytes, here a \<open>string\<close> (\<open>char\<close> has 256 values). Every function below is byte
  exact, with one exception: lower-casing a string that holds a non-ASCII byte goes through
  Unicode's case tables, and \<open>ToLower\<close> takes that mapping as its first argument \<open>u\<close>; on ASCII
  strings (Go's own fast path) it is defined outright.
\<close>

section \<open>Prefixes, suffixes and membership\<close>

definition HasPrefix :: "string \<Rightarrow> string \<Rightarrow> bool" where
  "HasPrefix s p \<longleftrightarrow> take (length p) s = p"

definition HasSuffix :: "string \<Rightarrow> string \<Rightarrow> bool" where
  "HasSuffix s p \<longleftrightarrow> length p \<le> length s \<and> drop (length s - length p) s = p"

definition TrimPrefix :: "string \<Rightarrow> string \<Rightarrow> string" where
  "TrimPrefix s p = (if HasPrefix s p then drop (length p) s else s)"

definition TrimSuffix :: "string \<Rightarrow> string \<Rightarrow> string" where
  "TrimSuffix s p = (if HasSuffix s p then take (length s - length p) s else s)"

definition CutPrefix :: "string \<Rightarrow> string \<Rightarrow> string \<times> bool" where
  "CutPrefix s p = (if HasPrefix s p then (drop (length p) s, True) else (s, False))"

definition ContainsAny :: "string \<Rightarrow> string \<Rightarrow> bool" where
  "ContainsAny s cs \<longleftrightarrow> list_ex (\<lambda>c. c \<in> set cs) s"

fun Contains :: "string \<Rightarrow> string \<Rightarrow> bool" where
  "Contains [] p = (p = [])"
| "Contains (x # s) p = (HasPrefix (x # s) p \<or> Contains s p)"

lemma HasPrefix_iff: "HasPrefix s p \<longleftrightarrow> (\<exists>t. s = p @ t)"
proof
  assume "HasPrefix s p"
  then have "s = p @ drop (length p) s"
    by (metis HasPrefix_def append_take_drop_id)
  then show "\<exists>t. s = p @ t" ..
qed (auto simp: HasPrefix_def)

lemma HasSuffix_iff: "HasSuffix s p \<longleftrightarrow> (\<exists>t. s = t @ p)"
proof
  assume "HasSuffix s p"
  then have "s = take (length s - length p) s @ p"
    by (metis HasSuffix_def append_take_drop_id)
  then show "\<exists>t. s = t @ p" ..
qed (auto simp: HasSuffix_def)

lemma HasPrefix_append [simp]: "HasPrefix (p @ s) p"
  by (simp add: HasPrefix_def)

lemma HasPrefix_Nil [simp]: "HasPrefix s []"
  by (simp add: HasPrefix_def)

lemma HasPrefix_single: "HasPrefix s [c] \<longleftrightarrow> (\<exists>t. s = c # t)"
  by (auto simp: HasPrefix_iff)

lemma HasPrefix_single_Cons [simp]: "HasPrefix (x # s) [c] \<longleftrightarrow> x = c"
  by (auto simp: HasPrefix_iff)

lemma HasPrefix_single_Nil [simp]: "\<not> HasPrefix [] [c]"
  by (simp add: HasPrefix_iff)

lemma TrimPrefix_single [simp]: "TrimPrefix (x # s) [c] = (if x = c then s else x # s)"
  by (simp add: TrimPrefix_def)

lemma Contains_single: "Contains s [c] \<longleftrightarrow> c \<in> set s"
  by (induction s) auto

lemma Contains_iff: "Contains s p \<longleftrightarrow> (\<exists>a b. s = a @ p @ b)"
proof (induction s)
  case Nil
  show ?case by auto
next
  case (Cons x s)
  have "(\<exists>a b. x # s = a @ p @ b) \<longleftrightarrow> HasPrefix (x # s) p \<or> (\<exists>a b. s = a @ p @ b)"
    by (auto simp: HasPrefix_iff Cons_eq_append_conv)
  with Cons show ?case by simp
qed

lemma Contains_set: "Contains s p \<Longrightarrow> set p \<subseteq> set s"
  by (auto simp: Contains_iff)

lemma ContainsAny_iff: "ContainsAny s cs \<longleftrightarrow> set s \<inter> set cs \<noteq> {}"
  by (auto simp: ContainsAny_def list_ex_iff)

section \<open>Splitting and joining\<close>

text \<open>\<open>strings.Split(s, sep)\<close> for a one-byte separator; the result is never empty.\<close>

fun Split :: "char \<Rightarrow> string \<Rightarrow> string list" where
  "Split c [] = [[]]"
| "Split c (x # s) =
     (if x = c then [] # Split c s
      else case Split c s of w # ws \<Rightarrow> (x # w) # ws | [] \<Rightarrow> [[x]])"

fun Join :: "string \<Rightarrow> string list \<Rightarrow> string" where
  "Join sep [] = []"
| "Join sep [x] = x"
| "Join sep (x # y # ys) = x @ sep @ Join sep (y # ys)"

lemma Split_nonempty [simp]: "Split c s \<noteq> []"
  by (induction s) (auto split: list.splits)

lemma Split_no_sep: "w \<in> set (Split c s) \<Longrightarrow> c \<notin> set w"
  by (induction s arbitrary: w) (fastforce split: if_splits list.splits)+

lemma Join_Split [simp]: "Join [c] (Split c s) = s"
proof (induction s)
  case Nil
  show ?case by simp
next
  case (Cons x s)
  obtain w ws where "Split c s = w # ws" by (cases "Split c s") auto
  with Cons show ?case by (cases ws) auto
qed

lemma set_Join: "w \<in> set ws \<Longrightarrow> set w \<subseteq> set (Join sep ws)"
  by (induction sep ws rule: Join.induct) auto

lemma Split_chars: "w \<in> set (Split c s) \<Longrightarrow> set w \<subseteq> set s"
  using set_Join [of w "Split c s" "[c]"] by simp

lemma Split_free: "c \<notin> set w \<Longrightarrow> Split c w = [w]"
  by (induction w) auto

lemma Split_append_sep: "c \<notin> set w \<Longrightarrow> Split c (w @ c # s) = w # Split c s"
  by (induction w) auto

lemma Split_Join:
  "ws \<noteq> [] \<Longrightarrow> \<forall>w \<in> set ws. c \<notin> set w \<Longrightarrow> Split c (Join [c] ws) = ws"
  by (induction "[c]" ws rule: Join.induct) (auto simp: Split_free Split_append_sep)

text \<open>\<open>strings.FieldsFunc\<close>: the maximal runs of characters that do not satisfy \<open>f\<close>.\<close>

fun split_when :: "(char \<Rightarrow> bool) \<Rightarrow> string \<Rightarrow> string list" where
  "split_when f [] = [[]]"
| "split_when f (x # s) =
     (if f x then [] # split_when f s
      else case split_when f s of w # ws \<Rightarrow> (x # w) # ws | [] \<Rightarrow> [[x]])"

definition FieldsFunc :: "(char \<Rightarrow> bool) \<Rightarrow> string \<Rightarrow> string list" where
  "FieldsFunc f s = filter (\<lambda>w. w \<noteq> []) (split_when f s)"

lemma split_when_nonempty [simp]: "split_when f s \<noteq> []"
  by (induction s) (auto split: list.splits)

lemma split_when_free: "\<forall>x \<in> set w. \<not> f x \<Longrightarrow> split_when f w = [w]"
  by (induction w) auto

lemma split_when_append: "\<forall>x \<in> set w. \<not> f x \<Longrightarrow> f c \<Longrightarrow> split_when f (w @ c # s) = w # split_when f s"
  by (induction w) auto

lemma FieldsFunc_Join:
  assumes "f c" and "\<forall>w \<in> set ws. w \<noteq> [] \<and> (\<forall>x \<in> set w. \<not> f x)"
  shows "FieldsFunc f (Join [c] ws) = ws"
  using assms
proof (induction "[c]" ws rule: Join.induct)
  case (2 x)
  then show ?case by (simp add: FieldsFunc_def split_when_free)
next
  case (3 x y ys)
  then show ?case by (simp add: FieldsFunc_def split_when_append)
qed (simp add: FieldsFunc_def)

section \<open>Case and white space\<close>

definition is_ascii :: "string \<Rightarrow> bool" where
  "is_ascii s \<longleftrightarrow> list_all (\<lambda>c. of_char c < (128::nat)) s"

text \<open>Adding 32 to a capital letter sets its sixth bit.\<close>

definition set_bit5 :: "char \<Rightarrow> char" where
  "set_bit5 c = (case c of Char b0 b1 b2 b3 b4 b5 b6 b7 \<Rightarrow> Char b0 b1 b2 b3 b4 True b6 b7)"

definition lower_char :: "char \<Rightarrow> char" where
  "lower_char c = (if CHR ''A'' \<le> c \<and> c \<le> CHR ''Z'' then set_bit5 c else c)"

text \<open>\<open>u\<close> is the mapping of Unicode's case tables over a string that is not ASCII.\<close>

definition ToLower :: "(string \<Rightarrow> string) \<Rightarrow> string \<Rightarrow> string" where
  "ToLower u s = (if is_ascii s then map lower_char s else u s)"

text \<open>The byte sequences of the runes for which \<open>unicode.IsSpace\<close> holds.\<close>

definition space_runes :: "string list" where
  "space_runes =
     [[CHR 0x09], [CHR 0x0A], [CHR 0x0B], [CHR 0x0C], [CHR 0x0D], [CHR 0x20],
      [CHR 0xC2, CHR 0x85], [CHR 0xC2, CHR 0xA0], [CHR 0xE1, CHR 0x9A, CHR 0x80],
      [CHR 0xE2, CHR 0x80, CHR 0x80], [CHR 0xE2, CHR 0x80, CHR 0x81], [CHR 0xE2, CHR 0x80, CHR 0x82],
      [CHR 0xE2, CHR 0x80, CHR 0x83], [CHR 0xE2, CHR 0x80, CHR 0x84], [CHR 0xE2, CHR 0x80, CHR 0x85],
      [CHR 0xE2, CHR 0x80, CHR 0x86], [CHR 0xE2, CHR 0x80, CHR 0x87], [CHR 0xE2, CHR 0x80, CHR 0x88],
      [CHR 0xE2, CHR 0x80, CHR 0x89], [CHR 0xE2, CHR 0x80, CHR 0x8A], [CHR 0xE2, CHR 0x80, CHR 0xA8],
      [CHR 0xE2, CHR 0x80, CHR 0xA9], [CHR 0xE2, CHR 0x80, CHR 0xAF], [CHR 0xE2, CHR 0x81, CHR 0x9F],
      [CHR 0xE3, CHR 0x80, CHR 0x80]]"

function trim_left_with :: "string list \<Rightarrow> string \<Rightarrow> string" where
  "trim_left_with ws s =
     (case find (\<lambda>w. w \<noteq> [] \<and> HasPrefix s w) ws of
        None \<Rightarrow> s
      | Some w \<Rightarrow> trim_left_with ws (drop (length w) s))"
  by pat_completeness auto
termination
proof (relation "measure (\<lambda>(ws, s). length s)")
  fix ws s w
  assume "find (\<lambda>w. w \<noteq> [] \<and> HasPrefix s w) ws = Some w"
  then have "w \<noteq> []" and "HasPrefix s w" by (auto simp: find_Some_iff)
  then show "((ws, drop (length w) s), (ws, s)) \<in> measure (\<lambda>(ws, s). length s)"
    by (auto simp: HasPrefix_iff)
qed simp

declare trim_left_with.simps [simp del]

definition TrimSpace :: "string \<Rightarrow> string" where
  "TrimSpace s =
     rev (trim_left_with (map rev space_runes) (rev (trim_left_with space_runes s)))"

lemma trim_left_with_id:
  "\<forall>w \<in> set ws. w \<noteq> [] \<longrightarrow> \<not> HasPrefix s w \<Longrightarrow> trim_left_with ws s = s"
proof -
  assume "\<forall>w \<in> set ws. w \<noteq> [] \<longrightarrow> \<not> HasPrefix s w"
  then have "find (\<lambda>w. w \<noteq> [] \<and> HasPrefix s w) ws = None"
    by (auto simp: find_None_iff)
  then show ?thesis by (simp add: trim_left_with.simps)
qed

text \<open>A string of visible ASCII characters has nothing to trim.\<close>

definition visible :: "string \<Rightarrow> bool" where
  "visible s \<longleftrightarrow> list_all (\<lambda>c. 32 < (of_char c :: nat) \<and> of_char c < (128::nat)) s"

definition space_byte :: "nat \<Rightarrow> bool" where
  "space_byte n \<longleftrightarrow> n \<le> 32 \<or> 128 \<le> n"

lemma space_runes_bytes:
  "w \<in> set space_runes \<Longrightarrow> w \<noteq> [] \<and> list_all (\<lambda>c. space_byte (of_char c)) w"
  by (auto simp: space_runes_def space_byte_def)

lemma visible_no_space:
  assumes "visible s" and "w \<noteq> []" and "list_all (\<lambda>c. space_byte (of_char c)) w"
  shows "\<not> HasPrefix s w"
proof
  assume "HasPrefix s w"
  with assms(2) obtain c t v where "s = c # t" and "w = c # v"
    by (auto simp: HasPrefix_iff neq_Nil_conv)
  with assms(1,3) show False
    by (auto simp: visible_def space_byte_def)
qed

lemma visible_rev [simp]: "visible (rev s) = visible s"
  by (simp add: visible_def list_all_iff)

lemma TrimSpace_visible [simp]:
  assumes "visible s"
  shows "TrimSpace s = s"
proof -
  have "trim_left_with space_runes s = s"
    using assms by (auto intro!: trim_left_with_id dest: visible_no_space space_runes_bytes)
  moreover have "trim_left_with (map rev space_runes) (rev s) = rev s"
  proof (rule trim_left_with_id, intro ballI impI)
    fix w assume "w \<in> set (map rev space_runes)" and "w \<noteq> []"
    then have "list_all (\<lambda>c. space_byte (of_char c)) w"
      by (auto dest!: space_runes_bytes simp: list_all_iff)
    with assms \<open>w \<noteq> []\<close> show "\<not> HasPrefix (rev s) w"
      by (intro visible_no_space) auto
  qed
  ultimately show ?thesis by (simp add: TrimSpace_def)
qed

text \<open>Trimming only removes characters at the two ends.\<close>

lemma trim_left_with_drop: "\<exists>n. trim_left_with ws s = drop n s"
proof (induction ws s rule: trim_left_with.induct)
  case (1 ws s)
  show ?case
  proof (cases "find (\<lambda>w. w \<noteq> [] \<and> HasPrefix s w) ws")
    case None
    then show ?thesis by (auto simp: trim_left_with.simps intro: exI [of _ 0])
  next
    case (Some w)
    with 1 obtain n where "trim_left_with ws (drop (length w) s) = drop n (drop (length w) s)"
      by blast
    with Some show ?thesis
      by (auto simp: trim_left_with.simps [of ws s] drop_drop intro: exI [of _ "n + length w"])
  qed
qed

lemma TrimSpace_subset: "set (TrimSpace s) \<subseteq> set s"
proof -
  obtain n where n: "trim_left_with space_runes s = drop n s"
    using trim_left_with_drop by blast
  obtain m where "trim_left_with (map rev space_runes) (rev (drop n s)) = drop m (rev (drop n s))"
    using trim_left_with_drop by blast
  then show ?thesis
    using set_drop_subset [of m "rev (drop n s)"] set_drop_subset [of n s] by (auto simp: TrimSpace_def n)
qed

text \<open>Lower-casing is the identity on ASCII text without capital letters.\<close>

definition no_upper :: "string \<Rightarrow> bool" where
  "no_upper s \<longleftrightarrow> list_all (\<lambda>c. \<not> (CHR ''A'' \<le> c \<and> c \<le> CHR ''Z'')) s"

lemma ToLower_id [simp]: "is_ascii s \<Longrightarrow> no_upper s \<Longrightarrow> ToLower u s = s"
  unfolding ToLower_def no_upper_def list_all_iff
  by (simp, rule map_idI) (auto simp: lower_char_def)

lemma of_char_mono: "c \<le> d \<longleftrightarrow> (of_char c :: nat) \<le> of_char d"
  by (simp add: less_eq_char_def)

lemma of_char_set_bit5:
  "65 \<le> (of_char c :: nat) \<Longrightarrow> of_char c \<le> (90::nat) \<Longrightarrow> of_char (set_bit5 c) = (of_char c + 32 :: nat)"
  by (cases c) (auto simp: set_bit5_def of_bool_def split: if_splits)

lemma of_char_lower:
  "(of_char (lower_char c) :: nat) =
     (if 65 \<le> (of_char c :: nat) \<and> of_char c \<le> (90::nat) then of_char c + 32 else of_char c)"
  by (auto simp: lower_char_def of_char_mono of_char_set_bit5)

lemma lower_char_ascii: "of_char c < (128::nat) \<Longrightarrow> of_char (lower_char c) < (128::nat)"
  by (auto simp: of_char_lower)

lemma lower_char_not_upper: "\<not> (CHR ''A'' \<le> lower_char c \<and> lower_char c \<le> CHR ''Z'')"
  by (auto simp: of_char_mono of_char_lower)

lemma map_lower_no_upper [simp]: "no_upper (map lower_char s)"
  using lower_char_not_upper by (auto simp: no_upper_def list_all_iff)

lemma map_lower_ascii [simp]: "is_ascii s \<Longrightarrow> is_ascii (map lower_char s)"
  using lower_char_ascii by (auto simp: is_ascii_def list_all_iff)

lemma visible_ascii: "visible s \<Longrightarrow> is_ascii s"
  by (auto simp: visible_def is_ascii_def list_all_iff)

section \<open>Numbers\<close>

definition is_digit :: "char \<Rightarrow> bool" where
  "is_digit c \<longleftrightarrow> CHR ''0'' \<le> c \<and> c \<le> CHR ''9''"

definition digit_val :: "char \<Rightarrow> int" where
  "digit_val c = of_char c - 48"

definition digit_char :: "nat \<Rightarrow> char" where
  "digit_char n = char_of (n + 48)"

definition parse_digits :: "string \<Rightarrow> int option" where
  "parse_digits s =
     (if s = [] \<or> \<not> list_all is_digit s then None
      else Some (foldl (\<lambda>a c. 10 * a + digit_val c) 0 s))"

text \<open>\<open>strconv.Atoi\<close> accepts one sign and then decimal digits, leading zeros included.\<close>

definition Atoi :: "string \<Rightarrow> int option" where
  "Atoi s =
     (let neg = HasPrefix s ''-'';
          body = (if neg \<or> HasPrefix s ''+'' then tl s else s)
      in case parse_digits body of
           None \<Rightarrow> None
         | Some n \<Rightarrow>
             let v = (if neg then - n else n)
             in if - (2 ^ 63) \<le> v \<and> v < 2 ^ 63 then Some v else None)"

text \<open>\<open>strconv.ParseUint(s, 10, 64)\<close>.\<close>

definition ParseUint :: "string \<Rightarrow> u64 option" where
  "ParseUint s =
     (case parse_digits s of
        None \<Rightarrow> None
      | Some n \<Rightarrow> if n < 2 ^ 64 then Some (word_of_int n) else None)"

text \<open>\<open>fmt\<close>'s \<open>%d\<close>.\<close>

fun show_nat :: "nat \<Rightarrow> string" where
  "show_nat n = (if n < 10 then [digit_char n] else show_nat (n div 10) @ [digit_char (n mod 10)])"

declare show_nat.simps [simp del]

definition show_int :: "int \<Rightarrow> string" where
  "show_int n = (if n < 0 then ''-'' @ show_nat (nat (- n)) else show_nat (nat n))"

lemma of_digit_char: "n < 10 \<Longrightarrow> of_char (digit_char n) = n + 48"
  by (simp add: digit_char_def)

lemma of_char_int: "(of_char c :: int) = int (of_char c)"
  by (cases c) simp

lemma is_digit_iff: "is_digit c \<longleftrightarrow> 48 \<le> (of_char c :: nat) \<and> of_char c \<le> (57 :: nat)"
  by (simp add: is_digit_def of_char_mono)

lemma digit_val_char [simp]: "n < 10 \<Longrightarrow> digit_val (digit_char n) = int n"
  by (simp add: digit_val_def of_char_int of_digit_char)

lemma is_digit_char [simp]: "n < 10 \<Longrightarrow> is_digit (digit_char n)"
  by (simp add: is_digit_iff of_digit_char)

lemma show_nat_digits: "show_nat n \<noteq> [] \<and> list_all is_digit (show_nat n)"
proof (induction n rule: show_nat.induct)
  case (1 n)
  then show ?case by (subst (1 2) show_nat.simps) auto
qed

lemma foldl_show_nat: "foldl (\<lambda>a c. 10 * a + digit_val c) 0 (show_nat n) = int n"
proof (induction n rule: show_nat.induct)
  case (1 n)
  then show ?case by (subst show_nat.simps) (auto simp: zdiv_int zmod_int)
qed

lemma parse_show_nat [simp]: "parse_digits (show_nat n) = Some (int n)"
  using show_nat_digits [of n] by (simp add: parse_digits_def foldl_show_nat)

lemma ParseUint_show: "n < 2 ^ 64 \<Longrightarrow> ParseUint (show_nat n) = Some (of_nat n)"
  by (simp add: ParseUint_def)

end
