(* ===== verification/Ulid.thy ===== *)
theory Ulid
  imports Go_Strings
begin

unbundle bit_operations_syntax

text \<open>
  \<open>internal/run/ulid.go\<close>: a 48-bit millisecond timestamp and 80 random bits in Crockford base 32.
  The encoder shifts the bytes, last first, through a 64-bit accumulator and peels off five bits
  at a time. It is shown to compute the 26 base-32 digits of the 128-bit number, so identifiers
  decode to the timestamp and the random bits, never collide for different ones, and sort by time.
\<close>

section \<open>The code\<close>

definition ulidAlphabet :: string where
  "ulidAlphabet = ''0123456789ABCDEFGHJKMNPQRSTVWXYZ''"

definition emit :: "u64 \<Rightarrow> char" where
  "emit acc = ulidAlphabet ! unat (acc AND 31)"

text \<open>The six timestamp bytes, then the bytes \<open>rand.Read\<close> filled in.\<close>

definition ulid_bytes :: "u64 \<Rightarrow> 8 word list \<Rightarrow> 8 word list" where
  "ulid_bytes ms rnd =
     [ucast (drop_bit 40 ms), ucast (drop_bit 32 ms), ucast (drop_bit 24 ms),
      ucast (drop_bit 16 ms), ucast (drop_bit 8 ms), ucast ms] @ rnd"

text \<open>The inner loop. \<open>pos\<close> is the next position to write, counting down to -1.\<close>

function peel :: "u64 \<Rightarrow> nat \<Rightarrow> int \<Rightarrow> string \<Rightarrow> u64 \<times> nat \<times> int \<times> string" where
  "peel acc bits pos out =
     (if 5 \<le> bits \<and> 0 \<le> pos then
        peel (drop_bit 5 acc) (bits - 5) (pos - 1) (out[nat pos := emit acc])
      else (acc, bits, pos, out))"
  by pat_completeness auto
termination
  by (relation "measure (\<lambda>(acc, bits, pos, out). bits)") auto

declare peel.simps [simp del]

primrec feed :: "8 word list \<Rightarrow> u64 \<times> nat \<times> int \<times> string \<Rightarrow> u64 \<times> nat \<times> int \<times> string" where
  "feed [] st = st"
| "feed (b # bs) st =
     (case st of
        (acc, bits, pos, out) \<Rightarrow> feed bs (peel (acc OR push_bit bits (ucast b)) (bits + 8) pos out))"

function pad :: "u64 \<Rightarrow> int \<Rightarrow> string \<Rightarrow> string" where
  "pad acc pos out =
     (if 0 \<le> pos then pad (drop_bit 5 acc) (pos - 1) (out[nat pos := emit acc]) else out)"
  by pat_completeness auto
termination
  by (relation "measure (\<lambda>(acc, pos, out). nat (pos + 1))") auto

definition ulid_encode :: "8 word list \<Rightarrow> string" where
  "ulid_encode bin =
     (case feed (rev bin) (0, 0, 25, replicate 26 (CHR 0x00)) of
        (acc, bits, pos, out) \<Rightarrow> pad acc pos out)"

datatype ulid_panic = RandPanic

text \<open>\<open>rnd\<close> is what \<open>rand.Read\<close> does: fill the ten bytes, or fail, which panics.\<close>

definition NewULID :: "time \<Rightarrow> 8 word list option \<Rightarrow> ulid_panic + string" where
  "NewULID now rnd =
     (case rnd of
        None \<Rightarrow> Inl RandPanic
      | Some bs \<Rightarrow> Inr (ulid_encode (ulid_bytes (word_of_int (now div 1000000)) bs)))"

declare pad.simps [simp del]

section \<open>Specification: the base-32 digits of a number\<close>

definition digit32 :: "nat \<Rightarrow> char" where
  "digit32 n = ulidAlphabet ! (n mod 32)"

fun digits32 :: "nat \<Rightarrow> nat \<Rightarrow> string" where
  "digits32 0 n = []"
| "digits32 (Suc k) n = digits32 k (n div 32) @ [digit32 n]"

definition bytes_value :: "8 word list \<Rightarrow> nat" where
  "bytes_value bin = foldl (\<lambda>a b. 256 * a + unat b) 0 bin"

lemma length_digits32 [simp]: "length (digits32 k n) = k"
  by (induction k arbitrary: n) auto

lemma emit_digit32: "emit acc = digit32 (unat acc)"
proof -
  have "unat (acc AND 31) = unat acc mod 32"
  proof -
    have "acc AND 31 = take_bit 5 acc" by (simp add: take_bit_eq_mask mask_eq_decr_exp)
    then show ?thesis by (simp only: unsigned_take_bit_eq) (simp add: take_bit_eq_mod)
  qed
  then show ?thesis by (simp add: emit_def digit32_def)
qed

lemma unat_shift5: "unat (drop_bit 5 (acc :: u64)) = unat acc div 32"
  by (simp add: unsigned_drop_bit_eq drop_bit_eq_div take_bit_eq_mod unat_div_distrib)

lemma digits32_append: "digits32 (j + k) n = digits32 j (n div 32 ^ k) @ digits32 k n"
proof (induction k arbitrary: n)
  case 0
  show ?case by simp
next
  case (Suc k)
  show ?case by (simp add: Suc.IH div_mult2_eq)
qed

lemma digits32_low: "digits32 k (n + 32 ^ k * m) = digits32 k n"
proof (induction k arbitrary: n)
  case 0
  show ?case by simp
next
  case (Suc k)
  have "(n + 32 ^ Suc k * m) div 32 = n div 32 + 32 ^ k * m"
    by (simp add: mult.assoc [symmetric])
  moreover have "digit32 (n + 32 ^ Suc k * m) = digit32 n"
    by (simp add: digit32_def mult.assoc)
  ultimately show ?case by (simp add: Suc.IH)
qed

section \<open>The loops\<close>

lemma or_shifted_byte:
  assumes "unat (acc :: u64) < 2 ^ bits" and "bits < 5"
  shows "unat (acc OR push_bit bits (ucast (b :: 8 word))) = unat acc + 2 ^ bits * unat b"
proof -
  have b8: "unat b < 2 ^ 8" using unsigned_less [of b, where 'a = nat] by simp
  have b: "unat (ucast b :: u64) = unat b"
    using b8 by (simp add: unsigned_ucast_eq take_bit_nat_eq_self)
  have "unat b * 2 ^ bits < 2 ^ 64"
  proof -
    have "(2::nat) ^ bits \<le> 2 ^ 4" using assms(2) by (intro power_increasing) auto
    with b8 have "unat b * 2 ^ bits < 2 ^ 8 * 2 ^ 4" by (intro mult_less_le_imp_less) auto
    then show ?thesis by simp
  qed
  then have p: "unat (push_bit bits (ucast b) :: u64) = push_bit bits (unat b)"
    by (simp only: unsigned_push_bit_eq b) (simp add: take_bit_eq_mod push_bit_eq_mult)
  have "unat acc = take_bit bits (unat acc)"
    using assms(1) by (simp add: take_bit_eq_mod)
  then have "unat acc AND push_bit bits (unat b) = 0"
    by (metis bit_eqI bit_and_iff bit_0_eq bit_push_bit_iff_nat bit_take_bit_iff bot_apply bot_bool_def not_le)
  then have "unat acc OR push_bit bits (unat b) = unat acc + push_bit bits (unat b)"
    by (rule disjunctive_add_eq_or [symmetric])
  then show ?thesis by (simp only: unsigned_or_eq p) (simp add: push_bit_eq_mult mult.commute)
qed

lemma peel_digits:
  assumes "r < 5" and "length A = n" and "k \<le> n"
  shows "\<exists>acc'. peel acc (5 * k + r) (int n - 1) (A @ B) =
      (acc', r, int (n - k) - 1, take (n - k) A @ digits32 k (unat acc) @ B) \<and>
    unat acc' = unat acc div 32 ^ k"
  using assms
proof (induction k arbitrary: acc n A B)
  case 0
  then show ?case by (simp add: peel.simps)
next
  case (Suc k)
  then obtain m where m: "n = Suc m" by (cases n) auto
  let ?A = "take m A" and ?B = "digit32 (unat acc) # B"
  have out: "(A @ B)[m := emit acc] = ?A @ ?B"
    using Suc.prems m by (simp add: list_update_append upd_conv_take_nth_drop emit_digit32)
  have step: "peel acc (5 * Suc k + r) (int n - 1) (A @ B) =
      peel (drop_bit 5 acc) (5 * k + r) (int m - 1) (?A @ ?B)"
    by (subst peel.simps) (simp add: m out algebra_simps)
  have "length ?A = m" and "k \<le> m" using Suc.prems m by auto
  from Suc.IH [OF Suc.prems(1) this, of "drop_bit 5 acc" ?B] obtain acc' where
    "peel (drop_bit 5 acc) (5 * k + r) (int m - 1) (?A @ ?B) =
      (acc', r, int (m - k) - 1, take (m - k) ?A @ digits32 k (unat acc div 32) @ ?B)"
    "unat acc' = unat acc div 32 div 32 ^ k"
    by (auto simp: unat_shift5)
  with step m show ?case by (auto simp: div_mult2_eq min_def)
qed

fun little_endian :: "8 word list \<Rightarrow> nat" where
  "little_endian [] = 0"
| "little_endian (b # bs) = unat b + 256 * little_endian bs"

lemma feed_digits:
  assumes "bits < 5" and "unat acc < 2 ^ bits" and "length A = n"
    and "bits + 8 * length bs = 5 * k + r" and "r < 5" and "k \<le> n"
  shows "\<exists>acc'. feed bs (acc, bits, int n - 1, A @ B) =
      (acc', r, int (n - k) - 1,
       take (n - k) A @ digits32 k (unat acc + 2 ^ bits * little_endian bs) @ B) \<and>
    unat acc' = (unat acc + 2 ^ bits * little_endian bs) div 32 ^ k"
  using assms
proof (induction bs arbitrary: acc bits n A B k)
  case Nil
  then have "k = 0" and "r = bits" by auto
  with Nil.prems show ?case by simp
next
  case (Cons b bs)
  let ?W = "unat acc + 2 ^ bits * unat b" and ?V = "little_endian bs"
  let ?acc = "acc OR push_bit bits (ucast b) :: u64"
  have W: "unat ?acc = ?W" using Cons.prems by (intro or_shifted_byte)
  obtain k1 r1 where kr: "bits + 8 = 5 * k1 + r1" and r1: "r1 < 5"
    by (metis mult_div_mod_eq mod_less_divisor zero_less_numeral)
  obtain k2 where k: "k = k1 + k2" and T: "r1 + 8 * length bs = 5 * k2 + r"
  proof -
    have "5 * k1 + r1 + 8 * length bs = 5 * k + r" using Cons.prems(4) kr by simp
    then have "k1 \<le> k" using Cons.prems(5) by linarith
    then obtain k2 where "k = k1 + k2" using le_Suc_ex by blast
    with \<open>5 * k1 + r1 + 8 * length bs = 5 * k + r\<close> that show ?thesis by simp
  qed
  from peel_digits [OF r1 Cons.prems(3), of k1 ?acc B] k Cons.prems(6)
  obtain acc1 where p: "peel ?acc (bits + 8) (int n - 1) (A @ B) =
      (acc1, r1, int (n - k1) - 1, take (n - k1) A @ digits32 k1 ?W @ B)"
    and a1: "unat acc1 = ?W div 32 ^ k1"
    by (auto simp: W kr)
  have split8: "(2::nat) ^ bits * 256 = 32 ^ k1 * 2 ^ r1"
  proof -
    have "(2::nat) ^ bits * 256 = 2 ^ (bits + 8)" by (simp add: power_add)
    also have "\<dots> = (2 ^ 5) ^ k1 * 2 ^ r1" by (simp only: kr power_add power_mult)
    finally show ?thesis by simp
  qed
  have bound: "?W < 2 ^ bits * 256"
  proof -
    have "unat b < 256" using unsigned_less [of b, where 'a = nat] by simp
    then have "2 ^ bits * unat b \<le> 2 ^ bits * 255" by simp
    with Cons.prems(2) show ?thesis by linarith
  qed
  have "unat acc1 < 2 ^ r1"
    using bound unfolding split8 a1 by (simp add: less_mult_imp_div_less mult.commute)
  moreover have "length (take (n - k1) A) = n - k1" using Cons.prems(3) by simp
  moreover have "k2 \<le> n - k1" using Cons.prems(6) k by simp
  ultimately obtain acc2 where f: "feed bs (acc1, r1, int (n - k1) - 1,
        take (n - k1) A @ digits32 k1 ?W @ B) =
      (acc2, r, int (n - k1 - k2) - 1, take (n - k1 - k2) (take (n - k1) A) @
       digits32 k2 (unat acc1 + 2 ^ r1 * ?V) @ digits32 k1 ?W @ B)"
    and a2: "unat acc2 = (unat acc1 + 2 ^ r1 * ?V) div 32 ^ k2"
    using Cons.IH [OF r1 _ _ T Cons.prems(5), of acc1 "take (n - k1) A" "n - k1" "digits32 k1 ?W @ B"]
    by blast
  have N: "unat acc + 2 ^ bits * little_endian (b # bs) = ?W + 32 ^ k1 * (2 ^ r1 * ?V)"
    by (simp add: distrib_left mult.assoc [symmetric] split8)
  have Nd: "(?W + 32 ^ k1 * (2 ^ r1 * ?V)) div 32 ^ k1 = unat acc1 + 2 ^ r1 * ?V"
    by (simp add: a1)
  have "digits32 k (?W + 32 ^ k1 * (2 ^ r1 * ?V)) =
      digits32 k2 (unat acc1 + 2 ^ r1 * ?V) @ digits32 k1 ?W"
    unfolding k add.commute [of k1] digits32_append Nd digits32_low ..
  moreover have "(?W + 32 ^ k1 * (2 ^ r1 * ?V)) div 32 ^ k = unat acc2"
    unfolding k a2 power_add div_mult2_eq Nd ..
  moreover have "take (n - k1 - k2) (take (n - k1) A) = take (n - k) A"
    and "n - k1 - k2 = n - k" by (simp_all add: k)
  ultimately show ?case
    unfolding N using p f by simp
qed

lemma pad_digits:
  "length A = n \<Longrightarrow> pad acc (int n - 1) (A @ B) = digits32 n (unat acc) @ B"
proof (induction n arbitrary: acc A B)
  case 0
  then show ?case by (simp add: pad.simps)
next
  case (Suc n)
  have out: "(A @ B)[n := emit acc] = take n A @ digit32 (unat acc) # B"
    using Suc.prems by (simp add: list_update_append upd_conv_take_nth_drop emit_digit32)
  have "pad acc (int (Suc n) - 1) (A @ B) =
      pad (drop_bit 5 acc) (int n - 1) (take n A @ digit32 (unat acc) # B)"
    by (subst pad.simps) (simp add: out)
  also have "\<dots> = digits32 n (unat acc div 32) @ digit32 (unat acc) # B"
    using Suc.prems by (simp only: unat_shift5 [symmetric]) (intro Suc.IH, simp)
  finally show ?case by simp
qed

lemma little_endian_rev: "little_endian (rev bs) = bytes_value bs"
proof -
  have "little_endian (xs @ [b]) = little_endian xs + 256 ^ length xs * unat b" for xs b
    by (induction xs) (auto simp: algebra_simps)
  then have "little_endian (rev (bs @ [b])) = unat b + 256 * little_endian (rev bs)" for bs b
    by simp
  then show ?thesis
    by (induction bs rule: rev_induct) (auto simp: bytes_value_def)
qed

theorem ulid_encode_digits:
  assumes "length bin = 16"
  shows "ulid_encode bin = digits32 26 (bytes_value bin)"
proof -
  let ?V = "bytes_value bin" and ?Z = "replicate 26 (CHR 0x00)"
  obtain acc where f: "feed (rev bin) (0, 0, int 26 - 1, ?Z @ []) =
      (acc, 3, int (26 - 25) - 1, take (26 - 25) ?Z @ digits32 25 ?V @ [])"
    and a: "unat acc = ?V div 32 ^ 25"
    using feed_digits [of 0 0 ?Z 26 "rev bin" 25 3 "[]"] assms by (auto simp: little_endian_rev)
  have "ulid_encode bin = pad acc (int 1 - 1) (take 1 ?Z @ digits32 25 ?V)"
    using f by (simp add: ulid_encode_def)
  also have "\<dots> = digits32 1 (unat acc) @ digits32 25 ?V"
    by (rule pad_digits) simp
  also have "\<dots> = digits32 (1 + 25) ?V"
    by (simp only: digits32_append a)
  finally show ?thesis by simp
qed

section \<open>The number an identifier writes\<close>

lemma radix_unique: "a * n + r = b * n + s \<Longrightarrow> r < n \<Longrightarrow> s < n \<Longrightarrow> a = b \<and> r = s" for n :: nat
proof -
  assume e: "a * n + r = b * n + s" and r: "r < n" and s: "s < n"
  have "(a * n + r) div n = a" and "(b * n + s) div n = b" using r s by simp_all
  with e show ?thesis by simp
qed

lemma radix_less: "a * n + r < b * n + s" if "a < b" and "r < n" for a b n r s :: nat
proof -
  have "Suc a * n \<le> b * n" using that(1) by (intro mult_le_mono1) simp
  with that(2) show ?thesis by simp
qed

lemma bytes_value_Cons: "bytes_value (b # bs) = unat b * 256 ^ length bs + bytes_value bs"
proof -
  let ?f = "foldl (\<lambda>a b. 256 * a + unat b)"
  have "?f x bs = x * 256 ^ length bs + ?f 0 bs" for x
  proof (induction bs arbitrary: x)
    case (Cons c bs)
    have "?f x (c # bs) = (256 * x + unat c) * 256 ^ length bs + ?f 0 bs"
      and "?f 0 (c # bs) = unat c * 256 ^ length bs + ?f 0 bs"
      using Cons [of "256 * x + unat c"] Cons [of "unat c"] by simp_all
    then show ?case by (simp add: add_mult_distrib)
  qed simp
  from this [of "unat b"] show ?thesis by (simp add: bytes_value_def)
qed

lemma bytes_value_append: "bytes_value (as @ bs) = bytes_value as * 256 ^ length bs + bytes_value bs"
  by (induction as) (auto simp: bytes_value_Cons bytes_value_def [of "[]"] power_add algebra_simps)

lemma bytes_value_bound: "bytes_value bs < 256 ^ length bs"
proof (induction bs)
  case Nil
  show ?case by (simp add: bytes_value_def)
next
  case (Cons b bs)
  have "unat b < 256" using unsigned_less [of b, where 'a = nat] by simp
  then have "unat b * 256 ^ length bs + bytes_value bs < 256 * 256 ^ length bs + 0"
    using Cons by (rule radix_less)
  then show ?case by (simp add: bytes_value_Cons)
qed

lemma bytes_value_inj:
  "length as = length bs \<Longrightarrow> bytes_value as = bytes_value bs \<Longrightarrow> as = bs"
proof (induction as bs rule: list_induct2)
  case (Cons a as b bs)
  have "unat a * 256 ^ length as + bytes_value as = unat b * 256 ^ length as + bytes_value bs"
    using Cons by (simp add: bytes_value_Cons)
  moreover have "bytes_value as < 256 ^ length as" and "bytes_value bs < 256 ^ length as"
    using bytes_value_bound [of as] bytes_value_bound [of bs] Cons.hyps by auto
  ultimately have "unat a = unat b \<and> bytes_value as = bytes_value bs"
    by (rule radix_unique)
  with Cons.IH show ?case by (metis unsigned_word_eqI)
qed simp

lemma unat_byte: "k + 8 \<le> 64 \<Longrightarrow> unat (ucast (drop_bit k (x :: u64)) :: 8 word) = unat x div 2 ^ k mod 256"
proof -
  assume k: "k + 8 \<le> 64"
  have "unat (ucast (drop_bit k x) :: 8 word) = take_bit 8 (unat (drop_bit k x))"
    by (simp only: unsigned_ucast_eq) simp
  also have "\<dots> = take_bit 8 (drop_bit k (unat x))"
    using k by (simp only: unsigned_drop_bit_eq take_bit_drop_bit) (simp add: take_bit_drop_bit)
  finally show ?thesis by (simp add: take_bit_eq_mod drop_bit_eq_div)
qed

lemma byte_digits:
  "foldl (\<lambda>a j. 256 * a + n div 256 ^ j mod 256) x (rev [0..<k]) = x * 256 ^ k + n mod 256 ^ k"
  for n :: nat
proof (induction k arbitrary: x)
  case (Suc k)
  have "n mod 256 ^ Suc k = 256 ^ k * (n div 256 ^ k mod 256) + n mod 256 ^ k"
    by (simp only: power_Suc2 mod_mult2_eq)
  then show ?case by (simp only: upt_Suc_append zero_le rev_append rev.simps append.simps foldl.simps Suc.IH)
    (simp add: algebra_simps)
qed simp

text \<open>The six leading bytes hold the low 48 bits of the millisecond count.\<close>

lemma ulid_bytes_value:
  assumes "length rnd = 10"
  shows "bytes_value (ulid_bytes ms rnd) = unat ms mod 2 ^ 48 * 2 ^ 80 + bytes_value rnd"
proof -
  have down: "rev [0..<6] = [5, 4, 3, 2, 1, 0 :: nat]" by code_simp
  have "bytes_value (ulid_bytes ms []) =
      foldl (\<lambda>a j. 256 * a + unat ms div 256 ^ j mod 256) 0 (rev [0..<6])"
    unfolding down using unat_byte [of 0 ms] unat_byte [of 8 ms] unat_byte [of 16 ms]
      unat_byte [of 24 ms] unat_byte [of 32 ms] unat_byte [of 40 ms]
    by (simp add: ulid_bytes_def bytes_value_def)
  then have "bytes_value (ulid_bytes ms []) = unat ms mod 256 ^ 6"
    unfolding byte_digits by simp
  moreover have "bytes_value (ulid_bytes ms rnd) =
      bytes_value (ulid_bytes ms []) * 256 ^ length rnd + bytes_value rnd"
    by (simp add: ulid_bytes_def flip: bytes_value_append)
  ultimately show ?thesis using assms by simp
qed

lemma ulid_value_bound:
  assumes "length rnd = 10"
  shows "m mod 2 ^ 48 * 2 ^ 80 + bytes_value rnd < 32 ^ 26"
proof -
  have "m mod 2 ^ 48 \<le> 2 ^ 48 - 1" for m :: nat
    using mod_less_divisor [of "2 ^ 48" m] by simp
  then have "m mod 2 ^ 48 * 2 ^ 80 \<le> (2 ^ 48 - 1) * 2 ^ 80" by (intro mult_le_mono1)
  moreover have "bytes_value rnd < 2 ^ 80" using bytes_value_bound [of rnd] assms by simp
  ultimately have "m mod 2 ^ 48 * 2 ^ 80 + bytes_value rnd < (2 ^ 48 - 1) * 2 ^ 80 + 2 ^ 80"
    by (rule add_le_less_mono)
  then show ?thesis by simp
qed

section \<open>Digits determine and order the number\<close>

lemma alphabet_sorted: "sorted_wrt (<) ulidAlphabet"
  unfolding ulidAlphabet_def by code_simp

lemma digit32_less: "m mod 32 < n mod 32 \<Longrightarrow> digit32 m < digit32 n"
  unfolding digit32_def
  by (rule sorted_wrt_nth_less [OF alphabet_sorted]) (auto simp: ulidAlphabet_def)

lemma less_snoc:
  "length xs = length ys \<Longrightarrow> xs @ [a] < ys @ [b] \<longleftrightarrow> xs < ys \<or> xs = ys \<and> a < b"
  for a b :: "'a :: order"
  by (induction xs ys rule: list_induct2) auto

lemma digits32_mono: "m < n \<Longrightarrow> n < 32 ^ k \<Longrightarrow> digits32 k m < digits32 k n"
proof (induction k arbitrary: m n)
  case (Suc k)
  show ?case
  proof (cases "m div 32 < n div 32")
    case True
    then show ?thesis using Suc by (simp add: less_snoc less_mult_imp_div_less mult.commute)
  next
    case False
    then have "m div 32 = n div 32" using Suc.prems(1) by (meson div_le_mono le_less less_imp_le)
    moreover from this have "m mod 32 < n mod 32"
      using Suc.prems(1) by (metis div_mult_mod_eq add_less_cancel_left)
    ultimately show ?thesis by (simp add: less_snoc digit32_less)
  qed
qed simp

lemma digits32_inj:
  "m < 32 ^ k \<Longrightarrow> n < 32 ^ k \<Longrightarrow> digits32 k m = digits32 k n \<longleftrightarrow> m = n"
  by (metis digits32_mono less_irrefl nat_neq_iff)

lemma digits32_alphabet: "set (digits32 k n) \<subseteq> set ulidAlphabet"
proof (induction k arbitrary: n)
  case (Suc k)
  have "digit32 n \<in> set ulidAlphabet"
    unfolding digit32_def by (rule nth_mem) (simp add: ulidAlphabet_def)
  with Suc show ?case by simp
qed simp

section \<open>Properties\<close>

text \<open>The millisecond count as the encoder keeps it.\<close>

definition stamp :: "time \<Rightarrow> nat" where
  "stamp now = nat (now div 1000000) mod 2 ^ 48"

lemma stamp_small: "0 \<le> now \<Longrightarrow> now < 2 ^ 63 \<Longrightarrow> stamp now = nat (now div 1000000)"
proof -
  assume "0 \<le> now" and "now < 2 ^ 63"
  then have "now div 1000000 < 2 ^ 63 div 1000000 + 1"
    using zdiv_mono1 [of now "2 ^ 63" 1000000] by simp
  then have "nat (now div 1000000) < 2 ^ 48" by simp
  then show ?thesis by (simp only: stamp_def mod_less)
qed

lemma NewULID_number:
  assumes "0 \<le> now" and "now < 2 ^ 63" and "length rnd = 10"
  shows "NewULID now (Some rnd) = Inr (digits32 26 (stamp now * 2 ^ 80 + bytes_value rnd))"
proof -
  let ?ms = "word_of_int (now div 1000000) :: u64"
  have "now div 1000000 \<le> now" using zdiv_mono2 [of now 1 1000000] assms(1) by simp
  then have "now div 1000000 < 2 ^ 64" using assms(2) by simp
  then have "unat ?ms = nat (now div 1000000)"
    using assms(1) by (simp add: unat_eq_nat_uint uint_word_of_int pos_imp_zdiv_nonneg_iff)
  moreover have "length (ulid_bytes ?ms rnd) = 16" using assms by (simp add: ulid_bytes_def)
  ultimately show ?thesis
    using assms by (simp add: NewULID_def ulid_encode_digits ulid_bytes_value stamp_def)
qed

text \<open>
  C27. A ULID is the 26 Crockford base-32 digits, most significant first, of the 128-bit number
  made of the 48-bit millisecond timestamp and the 80 random bits: the byte loop with its 64-bit
  accumulator neither drops a bit nor runs out of positions, and every character is in the
  alphabet.
\<close>

theorem NewULID_digits:
  assumes "0 \<le> now" and "now < 2 ^ 63" and "length rnd = 10"
  shows "\<exists>s. NewULID now (Some rnd) = Inr s \<and> length s = 26 \<and> set s \<subseteq> set ulidAlphabet \<and>
    s = digits32 26 (nat (now div 1000000) mod 2 ^ 48 * 2 ^ 80 + bytes_value rnd)"
  using NewULID_number [OF assms] digits32_alphabet by (auto simp: stamp_def)

theorem NewULID_digits_witness:
  "\<exists>s. NewULID 1700000000000000000 (Some (replicate 10 7)) = Inr s \<and> length s = 26 \<and>
    set s \<subseteq> set ulidAlphabet \<and>
    s = digits32 26 (nat (1700000000000000000 div 1000000) mod 2 ^ 48 * 2 ^ 80 + bytes_value (replicate 10 7))"
  by (rule NewULID_digits) auto

text \<open>
  C28. Two identifiers are equal exactly when they were minted in the same millisecond with the
  same random bytes (before the 48-bit timestamp wraps, in the year 10889), and an identifier of a
  later millisecond is greater as a string.
\<close>

theorem NewULID_sorted_unique:
  assumes "0 \<le> t1" and "0 \<le> t2" and "t1 < 2 ^ 63" and "t2 < 2 ^ 63"
    and "length r1 = 10" and "length r2 = 10"
    and "NewULID t1 (Some r1) = Inr s1" and "NewULID t2 (Some r2) = Inr s2"
  shows "(s1 = s2 \<longleftrightarrow> t1 div 1000000 = t2 div 1000000 \<and> r1 = r2) \<and>
    (t1 div 1000000 < t2 div 1000000 \<longrightarrow> s1 < s2)"
proof -
  let ?v = "\<lambda>t r. stamp t * 2 ^ 80 + bytes_value r"
  have s: "s1 = digits32 26 (?v t1 r1)" "s2 = digits32 26 (?v t2 r2)"
    using assms NewULID_number by auto
  have bound: "?v t1 r1 < 32 ^ 26" "?v t2 r2 < 32 ^ 26"
    using assms(5,6) by (simp_all only: stamp_def ulid_value_bound)
  have small: "bytes_value r1 < 2 ^ 80" "bytes_value r2 < 2 ^ 80"
    using bytes_value_bound [of r1] bytes_value_bound [of r2] assms(5,6) by simp_all
  have st: "stamp t1 = nat (t1 div 1000000)" "stamp t2 = nat (t2 div 1000000)"
    using assms(1-4) by (simp_all add: stamp_small)
  have "?v t1 r1 = ?v t2 r2 \<longleftrightarrow> stamp t1 = stamp t2 \<and> bytes_value r1 = bytes_value r2"
    by (metis radix_unique [OF _ small])
  moreover have "stamp t1 = stamp t2 \<longleftrightarrow> t1 div 1000000 = t2 div 1000000"
    unfolding st using assms(1,2) by (intro eq_nat_nat_iff) auto
  moreover have "bytes_value r1 = bytes_value r2 \<longleftrightarrow> r1 = r2"
    using bytes_value_inj [of r1 r2] assms(5,6) by auto
  ultimately have "s1 = s2 \<longleftrightarrow> t1 div 1000000 = t2 div 1000000 \<and> r1 = r2"
    unfolding s digits32_inj [OF bound] by simp
  moreover have "?v t1 r1 < ?v t2 r2" if "t1 div 1000000 < t2 div 1000000"
  proof -
    have "stamp t1 < stamp t2" using that assms(1) by (simp add: st)
    then show ?thesis using small(1) by (rule radix_less)
  qed
  ultimately show ?thesis using digits32_mono bound(2) s by auto
qed

theorem NewULID_sorted_unique_witness:
  "\<exists>s1 s2. NewULID 0 (Some (replicate 10 255)) = Inr s1 \<and>
    NewULID 1000000 (Some (replicate 10 0)) = Inr s2 \<and> s1 < s2"
proof -
  obtain s1 s2 where s: "NewULID 0 (Some (replicate 10 255)) = Inr s1"
    "NewULID 1000000 (Some (replicate 10 0)) = Inr s2"
    by (simp add: NewULID_def)
  have "s1 < s2"
    using NewULID_sorted_unique [OF _ _ _ _ _ _ s] by simp
  with s show ?thesis by blast
qed

end
