(* ===== verification/Registry.thy ===== *)
theory Registry
  imports Go_Strings
begin

text \<open>
  The data of package \<open>internal/run\<close> that its components share: the run, its lease and warm view,
  the errors, the constants of \<open>manager.go\<close>, and the registry \<open>Manager.runs\<close> with the two reads
  \<open>Get\<close> and \<open>List\<close>.

  \<open>Manager.mu\<close> guards the registry: every operation of the code that runs between a lock and its
  unlock is one function on the registry. Runs are values here: the code changes a run only
  through the registry and under the lock, and the copies it hands out are never written to.
\<close>

section \<open>Errors\<close>

text \<open>The reason a request is refused with \<open>ErrBadRequest\<close>; the text of the message is left out.\<close>

datatype bad_request =
    LeaseOwnerRequired | LeaseTTLRange
  | ImageRequired | BadNetwork string | BadEgressAllow | NoEgressProxy | EgressAllowNeedsAllowlist string
  | TTLTooLong | NoCacheStore | NoWarmVolume string | BadSlug string | BadWarmPath string
  | NotSnapshotRef string | PathNotRelative | PathEscapes
  | EnvTooMany nat | BadEnvName string | BadEnvValue string | EnvTooLarge nat
  | BadWarmContent string

datatype run_error =
    ErrNotFound
  | ErrBadRequest bad_request
  | ErrLeaseHeld
  | ErrLeaseSuperseded
  | ErrBusy
  | ErrOther string          \<comment> \<open>an error of the runtime, the cache or the proxy, passed on\<close>

section \<open>Data\<close>

definition DefaultTTL :: duration where "DefaultTTL = 30 * minute"
definition DefaultMemoryMB :: int where "DefaultMemoryMB = 1024"
definition DefaultPids :: int where "DefaultPids = 256"
definition MaxTTL :: duration where "MaxTTL = 24 * hour"

text \<open>The tiers; their wire names are \<open>none\<close>, \<open>allowlist\<close> and \<open>open\<close>.\<close>

datatype tier = NetworkNone | NetworkAllowlist | NetworkOpen

definition ParseNetwork :: "string \<Rightarrow> run_error + tier" where
  "ParseNetwork raw =
     (if raw = [] \<or> raw = ''none'' then Inr NetworkNone
      else if raw = ''allowlist'' \<or> raw = ''egress'' then Inr NetworkAllowlist
      else if raw = ''open'' then Inr NetworkOpen
      else Inl (ErrBadRequest (BadNetwork raw)))"

record LeaseState =
  Holder :: string
  Generation :: u64
  LeaseExpiresAt :: time

record LeaseCredential =
  Owner :: string
  CredGeneration :: u64

record WarmState =
  WarmRepo :: string
  Booted :: bool
  WarmLockHash :: string
  WarmRepoDir :: string

record Run =
  ID :: string
  RunImage :: string
  RunNetwork :: tier
  ContainerID :: string
  Warm :: "WarmState option"
  CacheDir :: string
  CachePath :: string
  CreatedAt :: time
  ExpiresAt :: time
  Lease :: "LeaseState option"
  leaseGen :: u64
  execs :: int

type_synonym registry = "string \<rightharpoonup> Run"

section \<open>Reads\<close>

definition Get :: "string \<Rightarrow> registry \<Rightarrow> run_error + Run" where
  "Get i m = (case m i of None \<Rightarrow> Inl ErrNotFound | Some r \<Rightarrow> Inr r)"

text \<open>\<open>List\<close> ranges over the map; \<open>ids\<close> is the order Go happens to pick.\<close>

definition List :: "string list \<Rightarrow> registry \<Rightarrow> Run list" where
  "List ids m = map (\<lambda>i. the (m i)) ids"

lemma Get_Inr [simp]: "Get i m = Inr r \<longleftrightarrow> m i = Some r"
  by (simp add: Get_def split: option.splits)

lemma Get_Inl [simp]: "Get i m = Inl e \<longleftrightarrow> m i = None \<and> e = ErrNotFound"
  by (auto simp: Get_def split: option.splits)

lemma List_complete: "set ids = dom m \<Longrightarrow> set (List ids m) = ran m"
  by (force simp: List_def ran_def dom_def image_iff)

end
