(* ===== verification/Validate.thy ===== *)
theory Validate
  imports Registry
begin

text \<open>
  The request validators of package \<open>internal/run\<close>: \<open>ValidateWorkPath\<close>, \<open>ValidateExecEnv\<close> and
  \<open>validEnvName\<close> (\<open>manager.go\<close>), \<open>NormalizeSlug\<close> and \<open>ValidateWarmPath\<close> (\<open>cache.go\<close>), and the
  env-file renderer \<open>execEnvFile\<close> (\<open>runtime.go\<close>) whose input the second of them guards.

  They are shown to confine: an accepted file path stays below the workdir, an accepted slug is
  canonical and safe as a path, an accepted mount point is a plain path outside the listed system
  directories, and an accepted environment survives the env-file format unchanged.
\<close>

section \<open>The code\<close>

definition WorkDir :: string where
  "WorkDir = ''/work''"

definition ValidateWorkPath :: "string \<Rightarrow> run_error + string" where
  "ValidateWorkPath path =
     (if path = [] \<or> HasPrefix path ''/'' then Inl (ErrBadRequest PathNotRelative)
      else if list_ex (\<lambda>segment. segment = ''..'' \<or> segment = []) (Split (CHR ''/'') path)
      then Inl (ErrBadRequest PathEscapes)
      else Inr (WorkDir @ ''/'' @ path))"

definition maxExecEnvVars :: nat where "maxExecEnvVars = 64"
definition maxExecEnvBytes :: nat where "maxExecEnvBytes = 65536"

definition name_start :: "char \<Rightarrow> bool" where
  "name_start r \<longleftrightarrow> r = CHR ''_'' \<or> CHR ''A'' \<le> r \<and> r \<le> CHR ''Z'' \<or> CHR ''a'' \<le> r \<and> r \<le> CHR ''z''"

definition validEnvName :: "string \<Rightarrow> bool" where
  "validEnvName name =
     (case name of
        [] \<Rightarrow> False
      | r # rs \<Rightarrow> name_start r \<and> list_all (\<lambda>r. name_start r \<or> CHR ''0'' \<le> r \<and> r \<le> CHR ''9'') rs)"

text \<open>The loop over the map, in the order Go happens to iterate it; \<open>n\<close> is the running total.\<close>

fun env_loop :: "(string \<times> string) list \<Rightarrow> nat \<Rightarrow> run_error + nat" where
  "env_loop [] n = Inr n"
| "env_loop ((name, value) # env) n =
     (if \<not> validEnvName name then Inl (ErrBadRequest (BadEnvName name))
      else if ContainsAny value [CHR 0x00, CHR 0x0A, CHR 0x0D] then Inl (ErrBadRequest (BadEnvValue name))
      else env_loop env (n + (length name + length value)))"

definition ValidateExecEnv :: "(string \<times> string) list \<Rightarrow> run_error + unit" where
  "ValidateExecEnv env =
     (if length env > maxExecEnvVars then Inl (ErrBadRequest (EnvTooMany (length env)))
      else case env_loop env 0 of
             Inl e \<Rightarrow> Inl e
           | Inr n \<Rightarrow>
               if n > maxExecEnvBytes then Inl (ErrBadRequest (EnvTooLarge n)) else Inr ())"

definition execEnvFile :: "(string \<times> string) list \<Rightarrow> string" where
  "execEnvFile env =
     concat (map (\<lambda>name. name @ ''='' @ the (map_of env name) @ [CHR 0x0A]) (sort (map fst env)))"

text \<open>
  The pattern \<open>slugShape\<close>: two or more segments of 1 to 63 characters, joined by slashes, each
  starting with a letter or digit.
\<close>

definition slug_start :: "char \<Rightarrow> bool" where
  "slug_start c \<longleftrightarrow> CHR ''a'' \<le> c \<and> c \<le> CHR ''z'' \<or> CHR ''0'' \<le> c \<and> c \<le> CHR ''9''"

definition seg_shape :: "string \<Rightarrow> bool" where
  "seg_shape seg =
     (case seg of
        [] \<Rightarrow> False
      | c # cs \<Rightarrow> slug_start c \<and> length cs \<le> 62 \<and>
          list_all (\<lambda>c. slug_start c \<or> c = CHR ''_'' \<or> c = CHR ''.'' \<or> c = CHR ''-'') cs)"

definition slugShape :: "string \<Rightarrow> bool" where
  "slugShape s \<longleftrightarrow> 2 \<le> length (Split (CHR ''/'') s) \<and> list_all seg_shape (Split (CHR ''/'') s)"

definition NormalizeSlug :: "(string \<Rightarrow> string) \<Rightarrow> string \<Rightarrow> run_error + string" where
  "NormalizeSlug u repo =
     (let slug = ToLower u (TrimSpace repo)
      in if \<not> slugShape slug then Inl (ErrBadRequest (BadSlug repo))
         else case find (\<lambda>seg. HasPrefix seg ''.'' \<or> HasSuffix seg ''.'') (Split (CHR ''/'') slug) of
                Some seg \<Rightarrow> Inl (ErrBadRequest (BadSlug seg))
              | None \<Rightarrow> Inr slug)"

definition forbidden :: "string list" where
  "forbidden = [''/'', ''/proc'', ''/sys'', ''/dev'', ''/etc'', ''/bin'', ''/usr'', ''/lib'', ''/sbin'']"

definition bad_segment :: "string \<Rightarrow> bool" where
  "bad_segment segment \<longleftrightarrow>
     segment = [] \<or> segment = ''.'' \<or> segment = ''..'' \<or>
     ContainsAny segment
       [CHR '' '', CHR 0x09, CHR 0x0A, CHR 0x27, CHR 0x22, CHR 0x5C, CHR '','', CHR '':'']"

definition ValidateWarmPath :: "string \<Rightarrow> run_error + string" where
  "ValidateWarmPath path =
     (if path = [] then Inr WorkDir
      else if \<not> HasPrefix path ''/'' \<or> Contains path ''//'' \<or> HasSuffix path ''/''
      then Inl (ErrBadRequest (BadWarmPath path))
      else if list_ex bad_segment (Split (CHR ''/'') (drop 1 path))
      then Inl (ErrBadRequest (BadWarmPath path))
      else case find (\<lambda>f. path = f \<or> HasPrefix path (f @ ''/'')) forbidden of
             Some f \<Rightarrow> Inl (ErrBadRequest (BadWarmPath f))
           | None \<Rightarrow> Inr path)"

section \<open>Paths\<close>

text \<open>Specification: what a path names, from the root, when dots are resolved.\<close>

fun resolve :: "string list \<Rightarrow> string list \<Rightarrow> string list" where
  "resolve dir [] = dir"
| "resolve dir (s # ss) =
     (if s = [] \<or> s = ''.'' then resolve dir ss
      else if s = ''..'' then resolve (butlast dir) ss
      else resolve (dir @ [s]) ss)"

definition resolve_path :: "string \<Rightarrow> string list" where
  "resolve_path p = resolve [] (Split (CHR ''/'') p)"

lemma resolve_prefix: "\<forall>s \<in> set ss. s \<noteq> ''..'' \<Longrightarrow> \<exists>rest. resolve dir ss = dir @ rest"
  by (induction dir ss rule: resolve.induct) auto

lemma resolve_plain: "\<forall>s \<in> set ss. s \<noteq> [] \<and> s \<noteq> ''.'' \<and> s \<noteq> ''..'' \<Longrightarrow> resolve dir ss = dir @ ss"
  by (induction dir ss rule: resolve.induct) auto

lemma Split_WorkDir: "Split (CHR ''/'') (WorkDir @ ''/'' @ p) = [] # ''work'' # Split (CHR ''/'') p"
  by (simp add: WorkDir_def)

text \<open>
  C18. The files API stays inside the workdir: an accepted path is relative and names, with every
  dot segment resolved, the workdir or something below it, without any climbing segment.
\<close>

theorem ValidateWorkPath_confined:
  assumes "ValidateWorkPath path = Inr full"
  shows "\<exists>rest. resolve_path full = ''work'' # rest \<and> full = WorkDir @ ''/'' @ path \<and>
    ''..'' \<notin> set (Split (CHR ''/'') full)"
proof -
  have full: "full = WorkDir @ ''/'' @ path" and s: "\<forall>s \<in> set (Split (CHR ''/'') path). s \<noteq> ''..''"
    using assms by (auto simp: ValidateWorkPath_def list_ex_iff split: if_splits)
  have "resolve_path full = resolve [''work''] (Split (CHR ''/'') path)"
    unfolding resolve_path_def full Split_WorkDir by simp
  then obtain rest where "resolve_path full = ''work'' # rest"
    using resolve_prefix [OF s, of "[''work'']"] by auto
  moreover have "''..'' \<notin> set (Split (CHR ''/'') full)"
    using s unfolding full Split_WorkDir by auto
  ultimately show ?thesis using full by blast
qed

theorem ValidateWorkPath_confined_witness:
  "\<exists>rest. resolve_path ''/work/src/./a.go'' = ''work'' # rest"
  using ValidateWorkPath_confined [of "''src/./a.go''" "''/work/src/./a.go''"]
  by (auto simp: ValidateWorkPath_def WorkDir_def HasPrefix_def)

lemma find_None_all: "find P xs = None \<longleftrightarrow> (\<forall>x \<in> set xs. \<not> P x)"
  by (induction xs) auto

lemma split_head:
  assumes "Split c q = w # ws"
  shows "q = w \<or> (\<exists>r. q = w @ c # r)"
proof -
  have "q = Join [c] (w # ws)" using Join_Split [of c q] assms by simp
  then show ?thesis by (cases ws) auto
qed

lemma WarmPath_segments:
  assumes "ValidateWarmPath path = Inr p"
  obtains q where "p = CHR ''/'' # q" and "list_all (\<lambda>w. \<not> bad_segment w) (Split (CHR ''/'') q)"
    and "\<forall>f \<in> set forbidden. p \<noteq> f \<and> \<not> HasPrefix p (f @ ''/'')"
proof (cases "path = []")
  case True
  then have p: "p = CHR ''/'' # ''work''" using assms by (simp add: ValidateWarmPath_def WorkDir_def)
  show ?thesis by (rule that [OF p]) (simp_all add: p bad_segment_def ContainsAny_def forbidden_def HasPrefix_def)
next
  case False
  with assms have "HasPrefix path ''/''" and p: "p = path"
    and b: "\<not> list_ex bad_segment (Split (CHR ''/'') (drop 1 path))"
    and f: "find (\<lambda>f. path = f \<or> HasPrefix path (f @ ''/'')) forbidden = None"
    by (auto simp: ValidateWarmPath_def split: if_splits option.splits)
  then obtain q where q: "path = CHR ''/'' # q" by (auto simp: HasPrefix_single)
  show ?thesis
    by (rule that [of q]) (use p q b f in \<open>auto simp: find_None_all list_ex_iff list_all_iff\<close>)
qed

lemma path_chars: "set q \<subseteq> insert c (\<Union>w \<in> set (Split c q). set w)"
proof -
  have "set (Join [c] ws) \<subseteq> insert c (\<Union>w \<in> set ws. set w)" for ws
    by (induction "[c]" ws rule: Join.induct) auto
  from this [of "Split c q"] show ?thesis by simp
qed

text \<open>
  C35. A warm mount point is a plain absolute path: it names what it spells, contains no colon or
  comma that could split the \<open>-v host:path\<close> argument, and does not lie at or below one of the
  listed system directories.
\<close>

theorem ValidateWarmPath_confined:
  assumes "ValidateWarmPath path = Inr p"
  shows "[] # resolve_path p = Split (CHR ''/'') p \<and> CHR '':'' \<notin> set p \<and> CHR '','' \<notin> set p \<and>
    hd (resolve_path p) \<notin> {''proc'', ''sys'', ''dev'', ''etc'', ''bin'', ''usr'', ''lib'', ''sbin''}"
proof -
  obtain q where p: "p = CHR ''/'' # q" and seg: "list_all (\<lambda>w. \<not> bad_segment w) (Split (CHR ''/'') q)"
    and f: "\<forall>f \<in> set forbidden. p \<noteq> f \<and> \<not> HasPrefix p (f @ ''/'')"
    using assms by (rule WarmPath_segments)
  have plain: "\<forall>w \<in> set (Split (CHR ''/'') q). w \<noteq> [] \<and> w \<noteq> ''.'' \<and> w \<noteq> ''..'' \<and>
      CHR '':'' \<notin> set w \<and> CHR '','' \<notin> set w"
    using seg by (auto simp: list_all_iff bad_segment_def ContainsAny_iff)
  then have r: "resolve_path p = Split (CHR ''/'') q"
    using resolve_plain [of "Split (CHR ''/'') q" "[]"] by (auto simp: resolve_path_def p)
  have c: "CHR '':'' \<notin> set p" "CHR '','' \<notin> set p"
    using path_chars [of q "CHR ''/''"] plain by (auto simp: p)
  obtain w ws where w: "Split (CHR ''/'') q = w # ws" by (cases "Split (CHR ''/'') q") auto
  have "CHR ''/'' # w \<notin> set forbidden"
    using split_head [OF w] f p by (auto simp: HasPrefix_iff)
  then have "w \<notin> {''proc'', ''sys'', ''dev'', ''etc'', ''bin'', ''usr'', ''lib'', ''sbin''}"
    by (auto simp: forbidden_def)
  then show ?thesis using r c w by (simp add: p)
qed

theorem ValidateWarmPath_confined_witness:
  "hd (resolve_path ''/work/repo'') \<notin> {''proc'', ''sys'', ''dev'', ''etc'', ''bin'', ''usr'', ''lib'', ''sbin''}"
proof -
  have "ValidateWarmPath ''/work/repo'' = Inr ''/work/repo''" by code_simp
  from ValidateWarmPath_confined [OF this] show ?thesis by blast
qed

section \<open>Slugs\<close>

lemma slug_char_range:
  "slug_start c \<or> c = CHR ''_'' \<or> c = CHR ''.'' \<or> c = CHR ''-'' \<Longrightarrow>
     33 \<le> (of_char c :: nat) \<and> (of_char c :: nat) < 127 \<and> \<not> (CHR ''A'' \<le> c \<and> c \<le> CHR ''Z'')"
  by (auto simp: slug_start_def of_char_mono)

lemma seg_shape_chars:
  "seg_shape w \<Longrightarrow> c \<in> set w \<Longrightarrow> slug_start c \<or> c = CHR ''_'' \<or> c = CHR ''.'' \<or> c = CHR ''-''"
  by (auto simp: seg_shape_def list_all_iff split: list.splits)

lemma slugShape_chars:
  assumes "slugShape s" and "c \<in> set s"
  shows "c = CHR ''/'' \<or> slug_start c \<or> c = CHR ''_'' \<or> c = CHR ''.'' \<or> c = CHR ''-''"
  using path_chars [of s "CHR ''/''"] assms seg_shape_chars
  by (fastforce simp: slugShape_def list_all_iff)

lemma slugShape_stable:
  assumes "slugShape s" shows "ToLower u (TrimSpace s) = s"
proof -
  have r: "33 \<le> (of_char c :: nat) \<and> (of_char c :: nat) < 127 \<and> \<not> (CHR ''A'' \<le> c \<and> c \<le> CHR ''Z'')"
    if "c \<in> set s" for c
    using slugShape_chars [OF assms that] slug_char_range [of c] by (auto simp: of_char_mono)
  have "32 < (of_char c :: nat) \<and> (of_char c :: nat) < 128" if "c \<in> set s" for c
    using r [OF that] by simp
  with r have "visible s" and "no_upper s" by (auto simp: visible_def no_upper_def list_all_iff)
  then show ?thesis by (simp add: visible_ascii)
qed

text \<open>
  A normalised slug is canonical (normalising it again changes nothing), so the owner/name a
  caller spells in several ways is one cache key, and its segments are safe as path segments:
  none is empty, starts or ends with a dot, or holds anything but letters, digits, underscore,
  dot and dash.
\<close>

theorem NormalizeSlug_canonical:
  assumes "NormalizeSlug u repo = Inr slug"
  shows "NormalizeSlug u slug = Inr slug \<and> 2 \<le> length (Split (CHR ''/'') slug) \<and>
    (\<forall>seg \<in> set (Split (CHR ''/'') slug). seg_shape seg \<and> \<not> HasPrefix seg ''.'' \<and> \<not> HasSuffix seg ''.'')"
proof -
  have s: "slugShape slug" and
    f: "find (\<lambda>seg. HasPrefix seg ''.'' \<or> HasSuffix seg ''.'') (Split (CHR ''/'') slug) = None"
    using assms by (auto simp: NormalizeSlug_def Let_def split: if_splits option.splits)
  then have "NormalizeSlug u slug = Inr slug"
    by (simp add: NormalizeSlug_def slugShape_stable)
  then show ?thesis using s f by (auto simp: slugShape_def find_None_all list_all_iff)
qed

theorem NormalizeSlug_canonical_witness:
  "NormalizeSlug id ''useteploy/teploy-sandbox'' = Inr ''useteploy/teploy-sandbox''"
proof -
  have "NormalizeSlug id '' UseTeploy/teploy-sandbox'' = Inr ''useteploy/teploy-sandbox''" by code_simp
  from NormalizeSlug_canonical [OF this] show ?thesis by blast
qed

section \<open>Exec environments\<close>

text \<open>
  Specification: how an env-file is read back, one variable per line, the name up to the first
  equals sign.
\<close>

definition env_line :: "string \<Rightarrow> string \<times> string" where
  "env_line l = (takeWhile (\<lambda>c. c \<noteq> CHR ''='') l, drop 1 (dropWhile (\<lambda>c. c \<noteq> CHR ''='') l))"

definition read_env_file :: "string \<Rightarrow> (string \<times> string) list" where
  "read_env_file s = map env_line (butlast (Split (CHR 0x0A) s))"

lemma env_loop_Inr:
  "env_loop env n = Inr k \<longleftrightarrow>
     (\<forall>(name, value) \<in> set env. validEnvName name \<and> set value \<inter> {CHR 0x00, CHR 0x0A, CHR 0x0D} = {}) \<and>
     k = n + sum_list (map (\<lambda>(name, value). length name + length value) env)"
  by (induction env n rule: env_loop.induct) (auto simp: ContainsAny_iff)

lemma Split_lines:
  "\<forall>l \<in> set ls. c \<notin> set l \<Longrightarrow> Split c (concat (map (\<lambda>l. l @ [c]) ls)) = ls @ [[]]"
proof (induction ls)
  case (Cons l ls)
  then show ?case using Split_append_sep [of c l "concat (map (\<lambda>l. l @ [c]) ls)"] by simp
qed simp

lemma env_line_pair: "CHR ''='' \<notin> set n \<Longrightarrow> env_line (n @ CHR ''='' # v) = (n, v)"
  by (induction n) (auto simp: env_line_def)

lemma validEnvName_chars:
  "validEnvName n \<Longrightarrow> CHR ''='' \<notin> set n \<and> CHR 0x0A \<notin> set n \<and> n \<noteq> []"
proof -
  have "\<not> (name_start c \<or> CHR ''0'' \<le> c \<and> c \<le> CHR ''9'')" if "c \<in> {CHR ''='', CHR 0x0A}" for c
    using that by (elim insertE emptyE; hypsubst_thin; code_simp)
  moreover assume "validEnvName n"
  ultimately show ?thesis by (cases n) (auto simp: validEnvName_def list_all_iff)
qed

text \<open>
  C19. An accepted exec environment is delivered intact: the env-file written for it reads back as
  exactly its variables, sorted by name, with every value byte for byte; and its count and total
  size are within the bounds.
\<close>

theorem ValidateExecEnv_delivers:
  assumes "ValidateExecEnv env = Inr ()" and "distinct (map fst env)"
  shows "read_env_file (execEnvFile env) = map (\<lambda>n. (n, the (map_of env n))) (sort (map fst env)) \<and>
    set (read_env_file (execEnvFile env)) = set env \<and> length env \<le> maxExecEnvVars \<and>
    sum_list (map (\<lambda>(name, value). length name + length value) env) \<le> maxExecEnvBytes"
proof -
  have ok: "\<forall>(name, value) \<in> set env. validEnvName name \<and> set value \<inter> {CHR 0x00, CHR 0x0A, CHR 0x0D} = {}"
    and size: "length env \<le> maxExecEnvVars"
      "sum_list (map (\<lambda>(name, value). length name + length value) env) \<le> maxExecEnvBytes"
    using assms(1) by (auto simp: ValidateExecEnv_def env_loop_Inr split: if_splits sum.splits)
  let ?ns = "sort (map fst env)" and ?v = "\<lambda>n. the (map_of env n)"
  have v: "?v n = w" if "(n, w) \<in> set env" for n w
    using that assms(2) by simp
  have n: "validEnvName n \<and> set (?v n) \<inter> {CHR 0x00, CHR 0x0A, CHR 0x0D} = {}" if "n \<in> set ?ns" for n
    using that ok v by (auto simp: image_iff)
  let ?l = "\<lambda>n. n @ CHR ''='' # ?v n"
  have nl: "CHR 0x0A \<notin> set (?l n)" if "n \<in> set ?ns" for n
    using n [OF that] validEnvName_chars [of n] by auto
  have lines: "execEnvFile env = concat (map (\<lambda>l. l @ [CHR 0x0A]) (map ?l ?ns))"
    by (simp add: execEnvFile_def comp_def)
  have "Split (CHR 0x0A) (execEnvFile env) = map ?l ?ns @ [[]]"
    unfolding lines by (rule Split_lines) (use nl in auto)
  then have "read_env_file (execEnvFile env) = map (\<lambda>n. env_line (?l n)) ?ns"
    by (simp add: read_env_file_def)
  also have "\<dots> = map (\<lambda>n. (n, ?v n)) ?ns"
    using n validEnvName_chars env_line_pair by (intro map_cong) auto
  finally have r: "read_env_file (execEnvFile env) = map (\<lambda>n. (n, ?v n)) ?ns" .
  have "(\<lambda>n. (n, ?v n)) ` fst ` set env = set env" using v by (force simp: image_iff)
  then have "set (read_env_file (execEnvFile env)) = set env" by (simp add: r)
  then show ?thesis using r size by blast
qed

theorem ValidateExecEnv_delivers_witness:
  "read_env_file (execEnvFile [(''GOFLAGS'', ''-mod=mod -v'')]) = [(''GOFLAGS'', ''-mod=mod -v'')]"
proof -
  let ?env = "[(''GOFLAGS'', ''-mod=mod -v'')]"
  have n: "validEnvName ''GOFLAGS''" by code_simp
  have "ValidateExecEnv ?env = Inr ()"
    using n by (simp add: ValidateExecEnv_def ContainsAny_iff maxExecEnvVars_def maxExecEnvBytes_def)
  from ValidateExecEnv_delivers [OF this] show ?thesis by simp
qed

end
