(* ===== verification/Fs.thy ===== *)
theory Fs
  imports Validate
begin

text \<open>
  The part of the file system the warm cache uses. A path is the list of its segments from the
  root (the cache builds its paths with \<open>filepath.Join\<close> from names without separators), and the file
  system an association list of paths and nodes. The operations are those of package \<open>os\<close> the
  source calls. Every call may fail: \<open>faults\<close> says for each of the coming calls whether it does
  (full disk, permissions), and all proofs hold for every such list.
\<close>

section \<open>Trees\<close>

type_synonym path = "string list"

datatype node =
    Dir nat                         \<comment> \<open>permissions\<close>
  | File nat string time            \<comment> \<open>permissions, content, modification time\<close>
  | Symlink string
  | Special                         \<comment> \<open>device, socket, pipe\<close>

type_synonym fs = "(path \<times> node) list"

definition under :: "path \<Rightarrow> path \<Rightarrow> bool" where
  "under d p \<longleftrightarrow> take (length d) p = d"

definition put :: "path \<Rightarrow> node \<Rightarrow> fs \<Rightarrow> fs" where
  "put p n t = (p, n) # filter (\<lambda>e. fst e \<noteq> p) t"

definition cut :: "path \<Rightarrow> fs \<Rightarrow> fs" where
  "cut p t = filter (\<lambda>e. \<not> under p (fst e)) t"

definition move :: "path \<Rightarrow> path \<Rightarrow> fs \<Rightarrow> fs" where
  "move a b t =
     map (\<lambda>e. if under a (fst e) then (b @ drop (length a) (fst e), snd e) else e) (cut b t)"

definition children :: "path \<Rightarrow> fs \<Rightarrow> string list" where
  "children d t = sort (remdups (map (last \<circ> fst) (filter (\<lambda>e. fst e \<noteq> [] \<and> butlast (fst e) = d) t)))"

lemma under_refl [simp]: "under d d"
  by (simp add: under_def)

lemma under_append [simp]: "under d (d @ p)"
  by (simp add: under_def)

lemma under_iff: "under d p \<longleftrightarrow> (\<exists>q. p = d @ q)"
  by (metis append_take_drop_id append_eq_conv_conj under_def)

lemma under_trans: "under a b \<Longrightarrow> under b c \<Longrightarrow> under a c"
  by (auto simp: under_iff)

lemma under_disjoint: "\<not> under a b \<Longrightarrow> \<not> under b a \<Longrightarrow> under a p \<Longrightarrow> \<not> under b p"
  by (auto simp: under_iff append_eq_append_conv2)

lemma map_of_put [simp]: "map_of (put p n t) = (map_of t)(p \<mapsto> n)"
proof -
  have "map_of (filter (\<lambda>e. fst e \<noteq> p) t) q = (if q = p then None else map_of t q)" for q
    by (induction t) auto
  then show ?thesis by (auto simp: put_def)
qed

lemma map_of_cut [simp]: "map_of (cut p t) = (\<lambda>q. if under p q then None else map_of t q)"
proof
  show "map_of (cut p t) q = (if under p q then None else map_of t q)" for q
    by (induction t) (auto simp: cut_def)
qed

lemma map_of_move:
  assumes "\<not> under a b"
  shows "map_of (move a b t) q =
    (if under b q then (if under b (a @ drop (length b) q) then None else map_of t (a @ drop (length b) q))
     else if under a q then None else map_of t q)"
proof (induction t)
  case Nil
  show ?case by (simp add: move_def cut_def)
next
  case (Cons e t)
  obtain p n where e: "e = (p, n)" by (cases e)
  show ?case
  proof (cases "under b p")
    case True
    then have "move a b (e # t) = move a b t" by (simp add: move_def cut_def e)
    moreover have "map_of (e # t) x = map_of t x" if "\<not> under b x" for x
      using True that by (auto simp: e)
    ultimately show ?thesis using Cons by (simp only:) (auto)
  next
    case False
    show ?thesis
    proof (cases "under a p")
      case True
      then obtain s where s: "p = a @ s" by (auto simp: under_iff)
      have m: "move a b (e # t) = (b @ s, n) # move a b t"
        using False True by (simp add: move_def cut_def e s)
      show ?thesis
        unfolding m using Cons False assms s by (auto simp: e under_iff)
    next
      case na: False
      then have m: "move a b (e # t) = (p, n) # move a b t"
        using False by (simp add: move_def cut_def e)
      show ?thesis
        unfolding m using Cons False na assms by (auto simp: e)
    qed
  qed
qed

section \<open>Calls that can fail\<close>

datatype io_error = NotExist | IOFail

record disk =
  tree :: fs
  faults :: "bool list"
  wall :: time              \<comment> \<open>the clock that stamps modification times\<close>

definition fault :: "disk \<Rightarrow> bool \<times> disk" where
  "fault d = (case faults d of [] \<Rightarrow> (False, d) | b # bs \<Rightarrow> (b, d\<lparr>faults := bs\<rparr>))"

definition is_dir :: "path \<Rightarrow> fs \<Rightarrow> bool" where
  "is_dir p t = (p = [] \<or> (case map_of t p of Some (Dir m) \<Rightarrow> True | _ \<Rightarrow> False))"

text \<open>\<open>os.MkdirAll\<close>: every missing directory on the way, unless something else is in the way.\<close>

definition ancestors :: "path \<Rightarrow> path list" where
  "ancestors p = map (\<lambda>k. take k p) [1..<Suc (length p)]"

definition mkdirs :: "path \<Rightarrow> nat \<Rightarrow> fs \<Rightarrow> fs" where
  "mkdirs p perm t = fold (\<lambda>q t. if map_of t q = None then put q (Dir perm) t else t) (ancestors p) t"

definition MkdirAll :: "path \<Rightarrow> nat \<Rightarrow> disk \<Rightarrow> io_error option \<times> disk" where
  "MkdirAll p perm d =
     (let (f, d) = fault d
      in if f \<or> \<not> list_all (\<lambda>q. map_of (tree d) q = None \<or> is_dir q (tree d)) (ancestors p)
         then (Some IOFail, d)
         else (None, d\<lparr>tree := mkdirs p perm (tree d)\<rparr>))"

text \<open>
  What a path names when a symbolic link at its end is followed, at most \<open>fuel\<close> times (the kernel
  gives up after 40). Links in the middle of a path are not followed here.
\<close>

fun follow :: "nat \<Rightarrow> path \<Rightarrow> fs \<Rightarrow> node option" where
  "follow 0 p t = None"
| "follow (Suc fuel) p t =
     (case map_of t p of
        Some (Symlink s) \<Rightarrow>
          follow fuel (resolve (if HasPrefix s ''/'' then [] else butlast p) (Split (CHR ''/'') s)) t
      | x \<Rightarrow> x)"

definition Stat :: "path \<Rightarrow> fs \<Rightarrow> node option" where
  "Stat p t = follow 40 p t"

definition OS_ReadFile :: "path \<Rightarrow> disk \<Rightarrow> (io_error + string) \<times> disk" where
  "OS_ReadFile p d =
     (let (f, d) = fault d
      in if f then (Inl IOFail, d)
         else case Stat p (tree d) of
                None \<Rightarrow> (Inl NotExist, d)
              | Some (File m c w) \<Rightarrow> (Inr c, d)
              | Some _ \<Rightarrow> (Inl IOFail, d))"

definition OS_WriteFile :: "path \<Rightarrow> string \<Rightarrow> nat \<Rightarrow> disk \<Rightarrow> io_error option \<times> disk" where
  "OS_WriteFile p c perm d =
     (let (f, d) = fault d
      in if f \<or> \<not> is_dir (butlast p) (tree d) then (Some IOFail, d)
         else case map_of (tree d) p of
                None \<Rightarrow> (None, d\<lparr>tree := put p (File perm c (wall d)) (tree d)\<rparr>)
              | Some (File m c' w) \<Rightarrow> (None, d\<lparr>tree := put p (File m c (wall d)) (tree d)\<rparr>)
              | Some _ \<Rightarrow> (Some IOFail, d))"

text \<open>
  \<open>os.Rename\<close>, which replaces a file by a file and refuses to replace anything else; \<open>os.RemoveAll\<close> and
  \<open>os.Remove\<close>, whose errors the source mostly ignores.
\<close>

definition Rename :: "path \<Rightarrow> path \<Rightarrow> disk \<Rightarrow> io_error option \<times> disk" where
  "Rename a b d =
     (let (f, d) = fault d
      in if f then (Some IOFail, d)
         else if map_of (tree d) a = None then (Some NotExist, d)
         else if under a b \<or> is_dir b (tree d) \<or> \<not> is_dir (butlast b) (tree d) \<or>
           is_dir a (tree d) \<and> map_of (tree d) b \<noteq> None then (Some IOFail, d)
         else (None, d\<lparr>tree := move a b (tree d)\<rparr>))"

definition RemoveAll :: "path \<Rightarrow> disk \<Rightarrow> io_error option \<times> disk" where
  "RemoveAll p d =
     (let (f, d) = fault d in if f then (Some IOFail, d) else (None, d\<lparr>tree := cut p (tree d)\<rparr>))"

definition ReadDir :: "path \<Rightarrow> disk \<Rightarrow> (io_error + string list) \<times> disk" where
  "ReadDir p d =
     (let (f, d) = fault d
      in if f then (Inl IOFail, d)
         else if map_of (tree d) p = None then (Inl NotExist, d)
         else if \<not> is_dir p (tree d) then (Inl IOFail, d)
         else (Inr (children p (tree d)), d))"

section \<open>Well-formed trees\<close>

text \<open>Every node hangs in a directory.\<close>

definition wf_tree :: "fs \<Rightarrow> bool" where
  "wf_tree t \<longleftrightarrow> (\<forall>p n. map_of t p = Some n \<longrightarrow> p \<noteq> [] \<and> is_dir (butlast p) t)"

lemma is_dir_Some: "p \<noteq> [] \<Longrightarrow> is_dir p t \<longleftrightarrow> (\<exists>m. map_of t p = Some (Dir m))"
  by (auto simp: is_dir_def split: option.splits node.splits)

lemma is_dir_cong: "map_of t p = map_of t' p \<Longrightarrow> is_dir p t = is_dir p t'"
  by (simp add: is_dir_def)

lemma wf_treeD: "wf_tree t \<Longrightarrow> map_of t p = Some n \<Longrightarrow> p \<noteq> [] \<and> is_dir (butlast p) t"
  by (simp add: wf_tree_def)

lemma wf_tree_ancestor:
  "wf_tree t \<Longrightarrow> map_of t (p @ q) \<noteq> None \<Longrightarrow> q \<noteq> [] \<Longrightarrow> is_dir p t"
proof (induction q rule: rev_induct)
  case (snoc x q)
  then have d: "is_dir (p @ q) t" using wf_treeD [of t "p @ q @ [x]"] by (auto simp: butlast_append)
  show ?case
  proof (cases "q = [] \<or> p = []")
    case True
    then show ?thesis using d by (auto simp: is_dir_def)
  next
    case False
    then have "map_of t (p @ q) \<noteq> None" using d by (auto simp: is_dir_Some)
    then show ?thesis using snoc False by blast
  qed
qed simp

lemma wf_tree_no_orphan: "wf_tree t \<Longrightarrow> map_of t p = None \<Longrightarrow> p \<noteq> [] \<Longrightarrow> under p q \<Longrightarrow> map_of t q = None"
  using wf_tree_ancestor [of t p] by (metis append_Nil2 is_dir_Some option.distinct(1) under_iff)

lemma ancestors_snoc: "ancestors (p @ [x]) = ancestors p @ [p @ [x]]"
proof -
  have "map (\<lambda>k. take k (p @ [x])) [1..<Suc (length p)] = map (\<lambda>k. take k p) [1..<Suc (length p)]"
    by (intro map_cong) auto
  then show ?thesis by (simp add: ancestors_def upt_rec [of 1])
qed

lemma ancestors_Nil [simp]: "ancestors [] = []"
  by (simp add: ancestors_def)

lemma set_ancestors: "q \<in> set (ancestors p) \<longleftrightarrow> q \<noteq> [] \<and> under q p"
proof (induction p rule: rev_induct)
  case Nil
  show ?case by (auto simp: under_def)
next
  case (snoc x p)
  show ?case
    by (auto simp: ancestors_snoc snoc under_iff append_eq_append_conv2 Cons_eq_append_conv)
qed

lemma map_of_mkdirs:
  "map_of (mkdirs p perm t) q =
     (if q \<in> set (ancestors p) \<and> map_of t q = None then Some (Dir perm) else map_of t q)"
proof -
  have "map_of (fold (\<lambda>q t. if map_of t q = None then put q (Dir perm) t else t) qs t) q =
      (if q \<in> set qs \<and> map_of t q = None then Some (Dir perm) else map_of t q)" for qs t
    by (induction qs arbitrary: t) auto
  then show ?thesis by (simp add: mkdirs_def)
qed

lemma fault_none [simp]: "faults d = [] \<Longrightarrow> fault d = (False, d)"
  by (simp add: fault_def)

lemma fault_cases:
  obtains "fault d = (True, d\<lparr>faults := tl (faults d)\<rparr>)" | "fault d = (False, d\<lparr>faults := tl (faults d)\<rparr>)"
  by (cases "faults d") (auto simp: fault_def)

lemma MkdirAll_ok:
  assumes "MkdirAll p perm d = (None, d')" and "wf_tree (tree d)"
  shows "map_of (tree d') = (\<lambda>q. if q \<noteq> [] \<and> under q p \<and> map_of (tree d) q = None then Some (Dir perm)
      else map_of (tree d) q) \<and> wf_tree (tree d') \<and> is_dir p (tree d') \<and> wall d' = wall d \<and>
      (faults d = [] \<longrightarrow> faults d' = [])"
proof -
  have all: "\<forall>q. q \<noteq> [] \<and> under q p \<longrightarrow> map_of (tree d) q = None \<or> is_dir q (tree d)"
    and d': "tree d' = mkdirs p perm (tree d)" "wall d' = wall d" "faults d = [] \<longrightarrow> faults d' = []"
    using assms(1) by (cases rule: fault_cases [of d]; auto simp: MkdirAll_def set_ancestors list_all_iff
        split: if_splits)+
  have m: "map_of (tree d') = (\<lambda>q. if q \<noteq> [] \<and> under q p \<and> map_of (tree d) q = None then Some (Dir perm)
      else map_of (tree d) q)"
    by (auto simp: d' map_of_mkdirs set_ancestors)
  have dir: "is_dir q (tree d')" if "under q p" for q
  proof (cases "q = []")
    case True
    then show ?thesis by (simp add: is_dir_def)
  next
    case False
    then have "map_of (tree d) q = None \<or> (\<exists>m. map_of (tree d) q = Some (Dir m))"
      using all that by (simp add: is_dir_Some)
    then show ?thesis using False that by (auto simp: is_dir_Some m)
  qed
  have "q \<noteq> [] \<and> is_dir (butlast q) (tree d')" if "map_of (tree d') q = Some n" for q n
  proof (cases "q \<noteq> [] \<and> under q p \<and> map_of (tree d) q = None")
    case True
    then have "under (butlast q) p"
      by (metis append_butlast_last_id under_append under_trans)
    then show ?thesis using True dir by blast
  next
    case False
    have "map_of (tree d') q = map_of (tree d) q" unfolding m using False by (rule if_not_P)
    then have "map_of (tree d) q = Some n" using that by simp
    then have "q \<noteq> [] \<and> is_dir (butlast q) (tree d)" using wf_treeD [OF assms(2)] by blast
    then show ?thesis by (auto simp: is_dir_def m split: option.splits node.splits)
  qed
  then have "wf_tree (tree d')" unfolding wf_tree_def by blast
  then show ?thesis using m dir d' by simp
qed

lemma MkdirAll_fails:
  assumes "MkdirAll p perm d = (Some e, d')"
  shows "e = IOFail \<and> tree d' = tree d \<and> wall d' = wall d \<and> (faults d = [] \<longrightarrow> faults d' = [])"
  using assms by (cases rule: fault_cases [of d]) (auto simp: MkdirAll_def split: if_splits)

text \<open>When the parent exists, only the last directory is made.\<close>

lemma MkdirAll_child:
  assumes "MkdirAll p perm d = (None, d')" and "wf_tree (tree d)" and "p \<noteq> []" and "is_dir (butlast p) (tree d)"
  shows "map_of (tree d') = (if map_of (tree d) p = None then (map_of (tree d))(p \<mapsto> Dir perm) else map_of (tree d))"
proof -
  have "map_of (tree d) q \<noteq> None" if "q \<noteq> []" "under q p" "q \<noteq> p" for q
  proof -
    obtain r where r: "p = q @ r" "r \<noteq> []" using \<open>under q p\<close> \<open>q \<noteq> p\<close> by (auto simp: under_iff)
    then have b: "butlast p = q @ butlast r" by (simp add: butlast_append)
    show ?thesis
    proof (cases "butlast r = []")
      case True
      then show ?thesis using b assms(4) that(1) by (auto simp: is_dir_Some)
    next
      case False
      then have "map_of (tree d) (q @ butlast r) \<noteq> None" using assms(4) b that(1) by (auto simp: is_dir_Some)
      then have "is_dir q (tree d)" using wf_tree_ancestor [OF assms(2) _ False] by blast
      then show ?thesis using that(1) by (auto simp: is_dir_Some)
    qed
  qed
  then have "(q \<noteq> [] \<and> under q p \<and> map_of (tree d) q = None) = (q = p \<and> map_of (tree d) p = None)" for q
    using assms(3) by (cases "q = p") auto
  then show ?thesis using MkdirAll_ok [OF assms(1,2)] by (auto simp: fun_eq_iff)
qed

lemma wf_cut:
  assumes "wf_tree t" shows "wf_tree (cut p t)"
proof -
  have "q \<noteq> [] \<and> is_dir (butlast q) (cut p t)" if "map_of (cut p t) q = Some n" for q n
  proof -
    have q: "map_of t q = Some n" "\<not> under p q" using that by (auto split: if_splits)
    then have w: "q \<noteq> []" "is_dir (butlast q) t" using wf_treeD [OF assms] by auto
    have "\<not> under p (butlast q)" using q(2) by (metis append_butlast_last_id under_append under_trans w(1))
    then show ?thesis using w by (auto simp: is_dir_def)
  qed
  then show ?thesis unfolding wf_tree_def by blast
qed

lemma under_butlast: "under a (butlast p) \<Longrightarrow> p \<noteq> [] \<Longrightarrow> under a p"
  by (metis append_butlast_last_id under_append under_trans)

text \<open>A rename moves the subtree and changes nothing else.\<close>

lemma Rename_ok:
  assumes "Rename a b d = (None, d')" and "wf_tree (tree d)"
  shows "map_of (tree d') q =
      (if under b q then map_of (tree d) (a @ drop (length b) q)
       else if under a q then None else map_of (tree d) q) \<and>
    wf_tree (tree d') \<and> wall d' = wall d \<and> (faults d = [] \<longrightarrow> faults d' = []) \<and>
    map_of (tree d) a \<noteq> None \<and> \<not> under a b \<and> \<not> under b a"
proof -
  have c: "map_of (tree d) a \<noteq> None" "\<not> under a b" "\<not> is_dir b (tree d)" "is_dir (butlast b) (tree d)"
    and d': "tree d' = move a b (tree d)" "wall d' = wall d" "faults d = [] \<longrightarrow> faults d' = []"
    using assms(1) by (cases rule: fault_cases [of d]; auto simp: Rename_def split: if_splits)+
  have b: "b \<noteq> []" using c(3) by (auto simp: is_dir_def)
  have ba: "\<not> under b a"
  proof
    assume "under b a"
    then obtain r where r: "a = b @ r" by (auto simp: under_iff)
    then show False using wf_tree_ancestor [OF assms(2), of b r] c(1-3) by (cases "r = []") auto
  qed
  have none: "\<not> under b (a @ s)" for s using under_disjoint [OF c(2) ba] by simp
  have m: "map_of (tree d') q =
      (if under b q then map_of (tree d) (a @ drop (length b) q)
       else if under a q then None else map_of (tree d) q)" for q
    unfolding d' map_of_move [OF c(2)] using none by simp
  have "q \<noteq> [] \<and> is_dir (butlast q) (tree d')" if q: "map_of (tree d') q = Some n" for q n
  proof (cases "under b q")
    case True
    then obtain s where s: "q = b @ s" by (auto simp: under_iff)
    then have as: "map_of (tree d) (a @ s) = Some n" using q by (simp add: m)
    show ?thesis
    proof (cases "s = []")
      case True
      have "\<not> under b (butlast b)"
      proof
        assume "under b (butlast b)"
        then obtain r where "butlast b = b @ r" by (auto simp: under_iff)
        then have "length b - 1 = length b + length r" by (metis length_append length_butlast)
        then show False using b by (cases b) simp_all
      qed
      moreover have "\<not> under a (butlast b)" using c(2) under_butlast b by blast
      ultimately have "is_dir (butlast b) (tree d')" using c(4) by (auto simp: is_dir_def m)
      then show ?thesis using True s b by simp
    next
      case False
      then have "is_dir (a @ butlast s) (tree d)"
        using wf_treeD [OF assms(2) as] by (simp add: butlast_append)
      moreover have "a \<noteq> []" using c(1) wf_treeD [OF assms(2), of a] by auto
      ultimately have "is_dir (b @ butlast s) (tree d')" using b by (auto simp: is_dir_Some m)
      then show ?thesis using False s by (simp add: butlast_append)
    qed
  next
    case False
    then have q': "map_of (tree d) q = Some n" "\<not> under a q" using q by (auto simp: m split: if_splits)
    then have w: "q \<noteq> []" "is_dir (butlast q) (tree d)" using wf_treeD [OF assms(2)] by auto
    have "\<not> under a (butlast q)" "\<not> under b (butlast q)"
      using q'(2) False under_butlast w(1) by blast+
    then show ?thesis using w by (auto simp: is_dir_def m)
  qed
  then have "wf_tree (tree d')" unfolding wf_tree_def by blast
  then show ?thesis using m d' c ba by blast
qed

lemma RemoveAll_ok:
  assumes "wf_tree (tree d)" and "RemoveAll p d = (e, d')"
  shows "wf_tree (tree d') \<and> wall d' = wall d \<and> (faults d = [] \<longrightarrow> faults d' = [] \<and> e = None) \<and>
    map_of (tree d') = (if e = None then (\<lambda>q. if under p q then None else map_of (tree d) q) else map_of (tree d))"
  using assms wf_cut [OF assms(1)]
  by (cases rule: fault_cases [of d]) (auto simp: RemoveAll_def)

end
