(* ===== verification/Cache.thy ===== *)
theory Cache
  imports Fs Ulid "HOL-Library.AList"
begin

text \<open>
  \<open>internal/run/cache.go\<close>: the store of warm per-repository volumes. A template is a directory
  \<open>repos/<sha256 of the slug>\<close> with a manifest that names its current generation; a run's private
  volume is \<open>runs/<id>\<close>. The state is the disk and the in-use counters.

  The library the store uses without looking inside is the record \<open>lib\<close>: Unicode lower-casing,
  SHA-256 in hex, and the JSON encoding of a manifest. The clock and the random part of a ULID are
  arguments. Each function is one run of the code; where the code leaves a window between two
  critical sections in which other operations matter, an argument \<open>meanwhile\<close> says what they do.
\<close>

section \<open>State\<close>

record WarmManifest =
  MfRepo :: string
  MfLockHash :: string
  MfRepoDir :: string
  MfGen :: string
  MfCreatedAt :: time

definition no_manifest :: WarmManifest where
  "no_manifest = \<lparr>MfRepo = [], MfLockHash = [], MfRepoDir = [], MfGen = [], MfCreatedAt = 0\<rparr>"

record lib =
  unicode_lower :: "string \<Rightarrow> string"
  sha256hex :: "string \<Rightarrow> string"
  json_enc :: "WarmManifest \<Rightarrow> string"
  json_dec :: "string \<Rightarrow> WarmManifest option"

record store =
  Root :: path
  MaxBytes :: int
  inUse :: "(path \<times> int) list"
  disk :: disk

definition lockfiles :: "string list" where
  "lockfiles =
     [''Cargo.lock'', ''Gemfile.lock'', ''Pipfile.lock'', ''composer.lock'',
      ''flake.lock'', ''go.mod'', ''mix.lock'', ''npm-shrinkwrap.json'',
      ''package-lock.json'', ''pnpm-lock.yaml'', ''poetry.lock'', ''yarn.lock'']"

definition lastUsedFile :: string where "lastUsedFile = ''.last-used''"
definition manifestFile :: string where "manifestFile = ''manifest.json''"

definition base36 :: "char \<Rightarrow> bool" where
  "base36 c \<longleftrightarrow> CHR ''0'' \<le> c \<and> c \<le> CHR ''9'' \<or> CHR ''a'' \<le> c \<and> c \<le> CHR ''z''"

definition genShape :: "string \<Rightarrow> bool" where
  "genShape s \<longleftrightarrow> HasPrefix s ''g-'' \<and> drop 2 s \<noteq> [] \<and> list_all base36 (drop 2 s)"

definition legacyKey :: "string \<Rightarrow> bool" where
  "legacyKey s \<longleftrightarrow> length s = 64 \<and>
     list_all (\<lambda>c. CHR ''0'' \<le> c \<and> c \<le> CHR ''9'' \<or> CHR ''a'' \<le> c \<and> c \<le> CHR ''f'') s"

definition dirNameSet :: "string \<Rightarrow> bool" where
  "dirNameSet s \<longleftrightarrow> s \<noteq> [] \<and> list_all (\<lambda>c. base36 c \<or> c = CHR ''.'' \<or> c = CHR ''_'' \<or> c = CHR ''-'') s"

definition slugDir :: "lib \<Rightarrow> store \<Rightarrow> string \<Rightarrow> path" where
  "slugDir l c slug = Root c @ [''repos'', sha256hex l slug]"

definition runDir :: "lib \<Rightarrow> store \<Rightarrow> string \<Rightarrow> path" where
  "runDir l c i = Root c @ [''runs'', ToLower (unicode_lower l) i]"

text \<open>A call of package \<open>os\<close> on the store's disk.\<close>

definition on_disk :: "(disk \<Rightarrow> 'a \<times> disk) \<Rightarrow> store \<Rightarrow> 'a \<times> store" where
  "on_disk f c = (let (r, d) = f (disk c) in (r, c\<lparr>disk := d\<rparr>))"

definition files :: "store \<Rightarrow> fs" where
  "files c = tree (disk c)"

section \<open>In-use marks\<close>

definition uses :: "path \<Rightarrow> store \<Rightarrow> int" where
  "uses p c = (case map_of (inUse c) p of None \<Rightarrow> 0 | Some n \<Rightarrow> n)"

definition mark :: "path \<Rightarrow> store \<Rightarrow> store" where
  "mark p c = c\<lparr>inUse := AList.update p (uses p c + 1) (inUse c)\<rparr>"

definition unmark :: "path \<Rightarrow> store \<Rightarrow> store" where
  "unmark p c =
     (if uses p c \<le> 1 then c\<lparr>inUse := AList.delete p (inUse c)\<rparr>
      else c\<lparr>inUse := AList.update p (uses p c - 1) (inUse c)\<rparr>)"

definition busy :: "path \<Rightarrow> store \<Rightarrow> bool" where
  "busy p c \<longleftrightarrow> uses p c > 0"

definition busyUnder :: "path \<Rightarrow> store \<Rightarrow> bool" where
  "busyUnder p c \<longleftrightarrow> list_ex (\<lambda>e. under p (fst e) \<and> fst e \<noteq> p) (inUse c)"

section \<open>Copying a tree\<close>

text \<open>
  \<open>copyTree\<close>: one call of the walk function per entry, parents before children, each directory's
  entries in lexical order, which is the lexical order of the paths.
\<close>

definition copy_file :: "nat \<Rightarrow> string \<Rightarrow> path \<Rightarrow> disk \<Rightarrow> io_error option \<times> disk" where
  "copy_file perm content target d =
     (case MkdirAll (butlast target) 493 d of
        (Some e, d) \<Rightarrow> (Some e, d)
      | (None, d) \<Rightarrow>
          (let (f, d) = fault d
           in if f then (Some IOFail, d)
              else case map_of (tree d) target of
                     None \<Rightarrow> (None, d\<lparr>tree := put target (File perm content (wall d)) (tree d)\<rparr>)
                   | Some (File m c w) \<Rightarrow> (None, d\<lparr>tree := put target (File m content (wall d)) (tree d)\<rparr>)
                   | Some _ \<Rightarrow> (Some IOFail, d)))"

definition copy_entry :: "path \<Rightarrow> node \<Rightarrow> disk \<Rightarrow> io_error option \<times> disk" where
  "copy_entry target n d =
     (case n of
        Symlink s \<Rightarrow>
          (let (f, d) = fault d
           in if f \<or> map_of (tree d) target \<noteq> None \<or> \<not> is_dir (butlast target) (tree d) then (Some IOFail, d)
              else (None, d\<lparr>tree := put target (Symlink s) (tree d)\<rparr>))
      | Dir perm \<Rightarrow> MkdirAll target perm d
      | File perm content w \<Rightarrow> copy_file perm content target d
      | Special \<Rightarrow> (None, d))"

fun copy_walk :: "path \<Rightarrow> path \<Rightarrow> (path \<times> node) list \<Rightarrow> disk \<Rightarrow> io_error option \<times> disk" where
  "copy_walk src dst [] d = (None, d)"
| "copy_walk src dst ((p, n) # es) d =
     (case copy_entry (dst @ drop (length src) p) n d of
        (Some e, d) \<Rightarrow> (Some e, d)
      | (None, d) \<Rightarrow> copy_walk src dst es d)"

definition walk :: "path \<Rightarrow> fs \<Rightarrow> (path \<times> node) list" where
  "walk src t = map (\<lambda>p. (p, the (map_of t p))) (sort (remdups (filter (under src) (map fst t))))"

definition copyTree :: "path \<Rightarrow> path \<Rightarrow> disk \<Rightarrow> io_error option \<times> disk" where
  "copyTree src dst d =
     (let (f, d) = fault d
      in if f then (Some IOFail, d)
         else if map_of (tree d) src = None then (Some NotExist, d)
         else copy_walk src dst (walk src (tree d)) d)"

definition dirSize :: "path \<Rightarrow> fs \<Rightarrow> int" where
  "dirSize p t =
     sum_list (map (\<lambda>(q, n). case n of File m content w \<Rightarrow> int (length content) | _ \<Rightarrow> 0) (walk p t))"

definition touchLastUsed :: "path \<Rightarrow> store \<Rightarrow> store" where
  "touchLastUsed sd c =
     (let p = sd @ [lastUsedFile]
      in case map_of (files c) p of
           Some (File m content w) \<Rightarrow>
             c\<lparr>disk := (disk c)\<lparr>tree := put p (File m content (wall (disk c))) (files c)\<rparr>\<rparr>
         | Some _ \<Rightarrow> c
         | None \<Rightarrow> snd (on_disk (OS_WriteFile p [] 384) c))"

section \<open>Manifests\<close>

definition Manifest :: "lib \<Rightarrow> string \<Rightarrow> store \<Rightarrow> (run_error + WarmManifest) \<times> store" where
  "Manifest l slug c =
     (case on_disk (OS_ReadFile (slugDir l c slug @ [manifestFile])) c of
        (Inl NotExist, c) \<Rightarrow> (Inl ErrNotFound, c)
      | (Inl IOFail, c) \<Rightarrow> (Inl (ErrOther ''warm manifest''), c)
      | (Inr data, c) \<Rightarrow>
          (case json_dec l data of
             None \<Rightarrow> (Inl (ErrBadRequest (BadWarmContent slug)), c)
           | Some mf \<Rightarrow>
               if MfRepo mf = [] \<or> \<not> genShape (MfGen mf)
               then (Inl (ErrBadRequest (BadWarmContent slug)), c)
               else (Inr mf, c)))"

definition manifestFromDir :: "lib \<Rightarrow> path \<Rightarrow> store \<Rightarrow> WarmManifest option \<times> store" where
  "manifestFromDir l sd c =
     (case on_disk (OS_ReadFile (sd @ [manifestFile])) c of
        (Inl _, c) \<Rightarrow> (None, c)
      | (Inr data, c) \<Rightarrow> (json_dec l data, c))"

definition writeManifest :: "lib \<Rightarrow> path \<Rightarrow> WarmManifest \<Rightarrow> store \<Rightarrow> run_error option \<times> store" where
  "writeManifest l sd mf c =
     (let tmp = sd @ [manifestFile @ ''.tmp-'' @ MfGen mf]
      in case on_disk (OS_WriteFile tmp (json_enc l mf) 384) c of
           (Some _, c) \<Rightarrow> (Some (ErrOther ''warm manifest''), c)
         | (None, c) \<Rightarrow>
             (case on_disk (Rename tmp (sd @ [manifestFile])) c of
                (Some _, c) \<Rightarrow> (Some (ErrOther ''warm manifest''), snd (on_disk (RemoveAll tmp) c))
              | (None, c) \<Rightarrow> (None, c)))"

section \<open>Boot\<close>

text \<open>
  The retry loop; \<open>k\<close> attempts are left. \<open>meanwhile k\<close> is what other operations do between the read
  of the manifest and the mark. Falling out of the loop is the cold boot.
\<close>

fun boot_loop :: "lib \<Rightarrow> (nat \<Rightarrow> store \<Rightarrow> store) \<Rightarrow> nat \<Rightarrow> path \<Rightarrow> string \<Rightarrow> store \<Rightarrow>
    (run_error + WarmManifest) option \<times> store" where
  "boot_loop l meanwhile 0 rd slug c = (None, c)"
| "boot_loop l meanwhile (Suc k) rd slug c =
     (case Manifest l slug c of
        (Inl ErrNotFound, c) \<Rightarrow> (None, c)
      | (Inl e, c) \<Rightarrow> (Some (Inl e), c)
      | (Inr mf, c) \<Rightarrow>
          (let genDir = slugDir l c slug @ [MfGen mf];
               c = mark genDir (meanwhile k c);
               (err, c) = on_disk (copyTree genDir rd) c;
               c = unmark genDir c
           in case err of
                None \<Rightarrow> (Some (Inr mf), touchLastUsed (slugDir l c slug) c)
              | Some NotExist \<Rightarrow> boot_loop l meanwhile k rd slug (snd (on_disk (RemoveAll rd) c))
              | Some IOFail \<Rightarrow> (Some (Inl (ErrOther ''warm boot copy'')), snd (on_disk (RemoveAll rd) c))))"

definition Boot :: "lib \<Rightarrow> (nat \<Rightarrow> store \<Rightarrow> store) \<Rightarrow> string \<Rightarrow> string \<Rightarrow> store \<Rightarrow>
    (run_error + path \<times> WarmManifest \<times> bool) \<times> store" where
  "Boot l meanwhile i slug c =
     (case on_disk (MkdirAll (Root c @ [''runs'']) 448) c of
        (Some _, c) \<Rightarrow> (Inl (ErrOther ''warm root''), c)
      | (None, c) \<Rightarrow>
          (let rd = runDir l c i
           in case boot_loop l meanwhile 3 rd slug c of
                (Some (Inl e), c) \<Rightarrow> (Inl e, c)
              | (Some (Inr mf), c) \<Rightarrow> (Inr (rd, mf, True), c)
              | (None, c) \<Rightarrow>
                  (case on_disk (MkdirAll rd 448) c of
                     (Some _, c) \<Rightarrow> (Inl (ErrOther ''warm volume''), c)
                   | (None, c) \<Rightarrow> (Inr (rd, no_manifest, False), c))))"

definition BootEmpty :: "lib \<Rightarrow> string \<Rightarrow> store \<Rightarrow> (run_error + path) \<times> store" where
  "BootEmpty l i c =
     (case on_disk (MkdirAll (Root c @ [''runs'']) 448) c of
        (Some _, c) \<Rightarrow> (Inl (ErrOther ''warm root''), c)
      | (None, c) \<Rightarrow>
          (case on_disk (MkdirAll (runDir l c i) 448) c of
             (Some _, c) \<Rightarrow> (Inl (ErrOther ''warm volume''), c)
           | (None, c) \<Rightarrow> (Inr (runDir l c i), c)))"

section \<open>Lockfile hash\<close>

definition hasLockfile :: "path \<Rightarrow> fs \<Rightarrow> bool" where
  "hasLockfile d t \<longleftrightarrow> list_ex (\<lambda>name. Stat (d @ [name]) t \<noteq> None) lockfiles"

definition detectRepoDir :: "path \<Rightarrow> store \<Rightarrow> (path \<times> string) \<times> store" where
  "detectRepoDir vol c =
     (if hasLockfile vol (files c) then ((vol, ''.''), c)
      else case on_disk (ReadDir vol) c of
             (Inl _, c) \<Rightarrow> ((vol, ''.''), c)
           | (Inr entries, c) \<Rightarrow>
               (case filter (\<lambda>name. is_dir (vol @ [name]) (files c) \<and> dirNameSet name \<and>
                               hasLockfile (vol @ [name]) (files c)) entries of
                  [name] \<Rightarrow> ((vol @ [name], name), c)
                | _ \<Rightarrow> ((vol, ''.''), c)))"

text \<open>The text that is hashed, one line per lockfile found.\<close>

fun lock_lines :: "lib \<Rightarrow> path \<Rightarrow> string list \<Rightarrow> store \<Rightarrow> (run_error + string) \<times> store" where
  "lock_lines l dir [] c = (Inr [], c)"
| "lock_lines l dir (name # names) c =
     (case on_disk (OS_ReadFile (dir @ [name])) c of
        (Inl NotExist, c) \<Rightarrow> lock_lines l dir names c
      | (Inl IOFail, c) \<Rightarrow> (Inl (ErrOther name), c)
      | (Inr data, c) \<Rightarrow>
          (case lock_lines l dir names c of
             (Inl e, c) \<Rightarrow> (Inl e, c)
           | (Inr text, c) \<Rightarrow> (Inr (name @ '' '' @ sha256hex l data @ [CHR 0x0A] @ text), c)))"

definition LockHash :: "lib \<Rightarrow> path \<Rightarrow> store \<Rightarrow> (run_error + string \<times> string) \<times> store" where
  "LockHash l vol c =
     (let ((dir, repoDir), c) = detectRepoDir vol c
      in case lock_lines l dir lockfiles c of
           (Inl e, c) \<Rightarrow> (Inl e, c)
         | (Inr text, c) \<Rightarrow>
             (Inr (sha256hex l (''dir '' @ repoDir @ [CHR 0x0A] @ text), repoDir), c))"

definition Cache_Hash :: "lib \<Rightarrow> string \<Rightarrow> store \<Rightarrow> (run_error + string \<times> string) \<times> store" where
  "Cache_Hash l i c = LockHash l (runDir l c i) c"

section \<open>Commit and cleanup\<close>

text \<open>One entry of the cleanup loop.\<close>

definition clean_entry :: "path \<Rightarrow> string \<Rightarrow> string \<Rightarrow> store \<Rightarrow> store" where
  "clean_entry sd current name c =
     (if \<not> is_dir (sd @ [name]) (files c) then c
      else if \<not> genShape name \<and> \<not> HasPrefix name ''t-g-'' then c
      else if \<not> genShape name then snd (on_disk (RemoveAll (sd @ [name])) c)
      else if name = current \<or> busy (sd @ [name]) c then c
      else
        case on_disk (Rename (sd @ [name]) (sd @ [''t-'' @ name])) c of
          (Some _, c) \<Rightarrow> c
        | (None, c) \<Rightarrow> snd (on_disk (RemoveAll (sd @ [''t-'' @ name])) c))"

text \<open>\<open>meanwhile\<close> is what others do between the read of the manifest and the listing.\<close>

definition cleanGenerations :: "lib \<Rightarrow> (store \<Rightarrow> store) \<Rightarrow> path \<Rightarrow> store \<Rightarrow> store" where
  "cleanGenerations l meanwhile sd c =
     (let (mf, c) = manifestFromDir l sd c;
          current = (case mf of None \<Rightarrow> [] | Some mf \<Rightarrow> MfGen mf);
          c = meanwhile c
      in case on_disk (ReadDir sd) c of
           (Inl _, c) \<Rightarrow> c
         | (Inr entries, c) \<Rightarrow> fold (clean_entry sd current) entries c)"

text \<open>
  \<open>ulid\<close> is the fresh identifier and \<open>now\<close> the clock. \<open>meanwhile\<close> is what others do between the
  two halves, after the manifest was written.
\<close>

definition commit_publish :: "lib \<Rightarrow> string \<Rightarrow> time \<Rightarrow> string \<Rightarrow> string \<Rightarrow> store \<Rightarrow>
    (run_error + WarmManifest) \<times> store" where
  "commit_publish l ulid now i slug c =
     (let rd = runDir l c i
      in case LockHash l rd c of
           (Inl e, c) \<Rightarrow> (Inl e, c)
         | (Inr (hash, repoDir), c) \<Rightarrow>
             (let sd = slugDir l c slug
              in case on_disk (MkdirAll sd 448) c of
                   (Some _, c) \<Rightarrow> (Inl (ErrOther ''warm slug dir''), c)
                 | (None, c) \<Rightarrow>
                     (let gen = ''g-'' @ ToLower (unicode_lower l) ulid;
                          genDir = sd @ [gen];
                          c = mark rd (mark genDir c);
                          (err, c) = on_disk (copyTree rd genDir) c;
                          c = unmark rd c
                      in case err of
                           Some _ \<Rightarrow>
                             (Inl (ErrOther ''warm commit copy''),
                              snd (on_disk (RemoveAll genDir) (unmark genDir c)))
                         | None \<Rightarrow>
                             (let mf = \<lparr>MfRepo = slug, MfLockHash = hash, MfRepoDir = repoDir, MfGen = gen,
                                        MfCreatedAt = now\<rparr>
                              in case writeManifest l sd mf c of
                                   (Some e, c) \<Rightarrow> (Inl e, snd (on_disk (RemoveAll genDir) (unmark genDir c)))
                                 | (None, c) \<Rightarrow> (Inr mf, unmark genDir c)))))"

definition Commit :: "lib \<Rightarrow> (store \<Rightarrow> store) \<Rightarrow> string \<Rightarrow> time \<Rightarrow> string \<Rightarrow> string \<Rightarrow> store \<Rightarrow>
    (run_error + WarmManifest) \<times> store" where
  "Commit l meanwhile ulid now i slug c =
     (case commit_publish l ulid now i slug c of
        (Inl e, c) \<Rightarrow> (Inl e, c)
      | (Inr mf, c) \<Rightarrow>
          (Inr mf, touchLastUsed (slugDir l c slug) (cleanGenerations l meanwhile (slugDir l c slug) c)))"

section \<open>Drop, release and sweep\<close>

definition Drop :: "lib \<Rightarrow> string \<Rightarrow> store \<Rightarrow> run_error option \<times> store" where
  "Drop l slug c =
     (let sd = slugDir l c slug
      in case Manifest l slug c of
           (Inl e, c) \<Rightarrow> (Some e, c)
         | (Inr _, c) \<Rightarrow>
             (case on_disk (ReadDir sd) c of
                (Inl _, c) \<Rightarrow> (Some (ErrOther ''warm drop''), c)
              | (Inr entries, c) \<Rightarrow>
                  if list_ex (\<lambda>name. uses (sd @ [name]) c > 0) entries
                  then (Some (ErrBadRequest (BadWarmContent slug)), c)
                  else case on_disk (RemoveAll sd) c of
                         (Some _, c) \<Rightarrow> (Some (ErrOther ''warm drop''), c)
                       | (None, c) \<Rightarrow> (None, c)))"

definition Release :: "lib \<Rightarrow> string \<Rightarrow> store \<Rightarrow> store" where
  "Release l i c =
     (if uses (runDir l c i) c > 0 then c else snd (on_disk (RemoveAll (runDir l c i)) c))"

record template =
  t_dir :: path
  t_lastUsed :: time
  t_size :: int

definition template_of :: "lib \<Rightarrow> path \<Rightarrow> store \<Rightarrow> template \<times> store" where
  "template_of l dir c =
     (let used = (case Stat (dir @ [lastUsedFile]) (files c) of Some (File m content w) \<Rightarrow> w | _ \<Rightarrow> 0);
          (mf, c) = manifestFromDir l dir c;
          used = (case mf of Some mf \<Rightarrow> if used = 0 then MfCreatedAt mf else used | None \<Rightarrow> used)
      in (\<lparr>t_dir = dir, t_lastUsed = used, t_size = dirSize dir (files c)\<rparr>, c))"

fun templates_of :: "lib \<Rightarrow> path list \<Rightarrow> store \<Rightarrow> template list \<times> store" where
  "templates_of l [] c = ([], c)"
| "templates_of l (dir # dirs) c =
     (let (t, c) = template_of l dir c; (ts, c) = templates_of l dirs c in (t # ts, c))"

text \<open>
  The eviction loop, least recently used first (\<open>sort.Slice\<close> does not say in which order equal times
  come; here they keep the order of the listing). \<open>meanwhile\<close> runs between the test of the marks and the
  removal.
\<close>

fun evict :: "(store \<Rightarrow> store) \<Rightarrow> template list \<Rightarrow> int \<Rightarrow> store \<Rightarrow> path list \<times> store" where
  "evict meanwhile [] n c = ([], c)"
| "evict meanwhile (t # ts) n c =
     (if n \<le> MaxBytes c then ([], c)
      else if busyUnder (t_dir t) c then evict meanwhile ts n c
      else
        case on_disk (RemoveAll (t_dir t)) (meanwhile c) of
          (Some _, c) \<Rightarrow> evict meanwhile ts n c
        | (None, c) \<Rightarrow>
            (let (removed, c) = evict meanwhile ts (n - t_size t) c in (t_dir t # removed, c)))"

definition Sweep :: "lib \<Rightarrow> (store \<Rightarrow> store) \<Rightarrow> store \<Rightarrow> path list \<times> store" where
  "Sweep l meanwhile c =
     (if MaxBytes c \<le> 0 then ([], c)
      else
        let repos = Root c @ [''repos'']
        in case on_disk (ReadDir repos) c of
             (Inl _, c) \<Rightarrow> ([], c)
           | (Inr entries, c) \<Rightarrow>
               (let names = filter (\<lambda>name. is_dir (repos @ [name]) (files c) \<and> legacyKey name) entries;
                    (ts, c) = templates_of l (map (\<lambda>name. repos @ [name]) names) c;
                    n = dirSize (Root c @ [''runs'']) (files c) + sum_list (map t_size ts)
                in if n \<le> MaxBytes c then ([], c)
                   else evict meanwhile (sort_key t_lastUsed ts) n c))"

end
