(* ===== verification/Cache_Copy.thy ===== *)
theory Cache_Copy
  imports Cache
begin

text \<open>
  \<open>copyTree\<close> is correct: it writes only below its destination whatever fails, and when it succeeds
  into a fresh directory the destination holds exactly the source's entries (special files left
  out) with content, permissions and link targets.
\<close>

section \<open>One entry\<close>

lemma wf_put:
  assumes "wf_tree t" and "p \<noteq> []" and "is_dir (butlast p) t" and "(\<exists>m. n = Dir m) \<or> \<not> is_dir p t"
  shows "wf_tree (put p n t)"
proof -
  have "q \<noteq> [] \<and> is_dir (butlast q) (put p n t)" if "map_of (put p n t) q = Some n'" for q n'
  proof -
    have "q \<noteq> [] \<and> is_dir (butlast q) t"
      using that assms wf_treeD [OF assms(1)] by (cases "q = p") auto
    moreover have "butlast q \<noteq> p" if "\<not> (\<exists>m. n = Dir m)"
      using that calculation assms(4) by auto
    ultimately show ?thesis by (cases "butlast q = p") (auto simp: is_dir_def split: node.splits)
  qed
  then show ?thesis unfolding wf_tree_def by blast
qed

lemma under_ancestor_present:
  assumes "wf_tree t" and "dst \<noteq> []" and "is_dir (butlast dst) t" and "under dst p"
    and "q \<noteq> []" and "under q p" and "\<not> under dst q"
  shows "map_of t q \<noteq> None"
proof -
  obtain r where r: "dst = q @ r"
    using assms(4,6,7) by (auto simp: under_iff append_eq_append_conv2)
  have "r \<noteq> []" using assms(7) r by auto
  then have b: "butlast dst = q @ butlast r" using r by (simp add: butlast_append)
  show ?thesis
  proof (cases "butlast r = []")
    case True
    then show ?thesis using b assms(3,5) by (auto simp: is_dir_Some)
  next
    case False
    then have "map_of t (q @ butlast r) \<noteq> None" using assms(3,5) b by (auto simp: is_dir_Some)
    then have "is_dir q t" using wf_tree_ancestor [OF assms(1) _ False] by blast
    then show ?thesis using assms(5) by (auto simp: is_dir_Some)
  qed
qed

text \<open>What a step of the copy may change.\<close>

definition confined :: "path \<Rightarrow> disk \<Rightarrow> disk \<Rightarrow> bool" where
  "confined dst d d' \<longleftrightarrow> wf_tree (tree d') \<and> wall d' = wall d \<and> (faults d = [] \<longrightarrow> faults d' = []) \<and>
     (\<forall>q. \<not> under dst q \<longrightarrow> map_of (tree d') q = map_of (tree d) q)"

lemma confined_trans: "confined dst a b \<Longrightarrow> confined dst b c \<Longrightarrow> confined dst a c"
  by (simp add: confined_def)

lemma confined_dir: "confined dst d d' \<Longrightarrow> dst \<noteq> [] \<Longrightarrow> is_dir (butlast dst) (tree d) \<Longrightarrow> is_dir (butlast dst) (tree d')"
proof -
  assume w: "confined dst d d'" and n: "dst \<noteq> []" and i: "is_dir (butlast dst) (tree d)"
  have "\<not> under dst (butlast dst)"
  proof
    assume "under dst (butlast dst)"
    then obtain r where "butlast dst = dst @ r" by (auto simp: under_iff)
    then have "length (butlast dst) = length dst + length r" by simp
    then have "length dst - 1 = length dst + length r" by simp
    then show False using n by (cases dst) simp_all
  qed
  then show ?thesis using w i is_dir_cong by (metis confined_def)
qed

lemma MkdirAll_confined:
  assumes "MkdirAll p perm d = (e, d')" and "wf_tree (tree d)" and "dst \<noteq> []" and "is_dir (butlast dst) (tree d)"
    and "under dst p"
  shows "confined dst d d'"
proof (cases e)
  case None
  then have ok: "MkdirAll p perm d = (None, d')" using assms(1) by simp
  have "\<not> (q \<noteq> [] \<and> under q p \<and> map_of (tree d) q = None)" if "\<not> under dst q" for q
    using under_ancestor_present [OF assms(2-5)] that by blast
  then have "map_of (tree d') q = map_of (tree d) q" if "\<not> under dst q" for q
    using MkdirAll_ok [OF ok assms(2)] that by metis
  then show ?thesis using MkdirAll_ok [OF ok assms(2)] by (simp add: confined_def)
next
  case (Some x)
  then show ?thesis using MkdirAll_fails [of p perm d x d'] assms by (simp add: confined_def)
qed

lemma put_confined:
  assumes "wf_tree (tree d)" and "under dst p" and "p \<noteq> []" and "is_dir (butlast p) (tree d)" and "\<not> is_dir p (tree d)"
  shows "confined dst d (d\<lparr>tree := put p n (tree d)\<rparr>)"
  using assms by (auto simp: confined_def intro: wf_put)

lemma fault_confined: "fault d = (f, d') \<Longrightarrow> wf_tree (tree d) \<Longrightarrow> confined dst d d' \<and> tree d' = tree d"
  by (cases rule: fault_cases [of d]) (auto simp: confined_def)

lemma fault_state: "fault d = (f, d') \<Longrightarrow> tree d' = tree d \<and> wall d' = wall d"
  by (cases "faults d") (auto simp: fault_def)

lemma copy_file_confined:
  assumes e: "copy_file perm content target d = (e, d')" and wf: "wf_tree (tree d)" and dst: "dst \<noteq> []"
    and dir: "is_dir (butlast dst) (tree d)" and u: "under dst target"
    and p: "under dst (butlast target) \<or> is_dir (butlast target) (tree d)"
  shows "confined dst d d' \<and> e \<noteq> Some NotExist"
proof -
  obtain e1 d1 where m: "MkdirAll (butlast target) 493 d = (e1, d1)" by fastforce
  have t: "target \<noteq> []" using u dst by (auto simp: under_iff)
  have w1: "confined dst d d1"
  proof (cases "under dst (butlast target)")
    case True
    then show ?thesis using MkdirAll_confined [OF m wf dst dir] by blast
  next
    case False
    then have pd: "is_dir (butlast target) (tree d)" using p by blast
    show ?thesis
    proof (cases e1)
      case None
      then have ok: "MkdirAll (butlast target) 493 d = (None, d1)" using m by simp
      have "\<not> (q \<noteq> [] \<and> under q (butlast target) \<and> map_of (tree d) q = None)" for q
        using pd wf_tree_no_orphan [OF wf, of q "butlast target"]
        by (auto simp: is_dir_def under_def split: option.splits)
      then have "map_of (tree d1) q = map_of (tree d) q" for q
        using MkdirAll_ok [OF ok wf] by metis
      then show ?thesis using MkdirAll_ok [OF ok wf] by (simp add: confined_def)
    next
      case (Some x)
      then show ?thesis using MkdirAll_fails [of "butlast target" 493 d x d1] m wf by (simp add: confined_def)
    qed
  qed
  show ?thesis
  proof (cases e1)
    case (Some x)
    then show ?thesis using e m w1 MkdirAll_fails [of "butlast target" 493 d x d1] by (auto simp: copy_file_def)
  next
    case None
    then have ok: "MkdirAll (butlast target) 493 d = (None, d1)" using m by simp
    have wf1: "wf_tree (tree d1)" and pd1: "is_dir (butlast target) (tree d1)"
      using MkdirAll_ok [OF ok wf] by auto
    obtain f d2 where f: "fault d1 = (f, d2)" by fastforce
    have w2: "confined dst d1 d2" and t2: "tree d2 = tree d1" using fault_confined [OF f wf1] by auto
    have "confined dst d2 (d2\<lparr>tree := put target n (tree d2)\<rparr>)" if "\<not> is_dir target (tree d2)" for n
      by (rule put_confined) (use that wf1 pd1 t t2 u in auto)
    then have "confined dst d1 d' \<and> e \<noteq> Some NotExist"
      using e None m f w2 t confined_trans [OF w2]
      by (auto simp: copy_file_def is_dir_def split: if_splits option.splits node.splits)
    then show ?thesis using confined_trans [OF w1] by blast
  qed
qed

lemma copy_entry_confined:
  assumes e: "copy_entry target n d = (e, d')" and wf: "wf_tree (tree d)" and dst: "dst \<noteq> []"
    and dir: "is_dir (butlast dst) (tree d)" and u: "under dst target"
    and p: "under dst (butlast target) \<or> is_dir (butlast target) (tree d)"
  shows "confined dst d d' \<and> e \<noteq> Some NotExist"
proof (cases n)
  case (Dir m)
  then have m: "MkdirAll target m d = (e, d')" using e by (simp add: copy_entry_def)
  show ?thesis
    using MkdirAll_confined [OF m wf dst dir u] MkdirAll_fails [of target m d _ d'] m by (cases e) auto
next
  case (File m c w)
  then show ?thesis using e copy_file_confined [OF _ wf dst dir u p] by (simp add: copy_entry_def)
next
  case (Symlink s)
  obtain f d1 where f: "fault d = (f, d1)" by fastforce
  have w: "confined dst d d1" and t: "tree d1 = tree d" using fault_confined [OF f wf] by auto
  have tn: "target \<noteq> []" using u dst by (auto simp: under_iff)
  have "confined dst d1 (d1\<lparr>tree := put target (Symlink s) (tree d1)\<rparr>)"
    if "map_of (tree d1) target = None" "is_dir (butlast target) (tree d1)"
    by (rule put_confined) (use that wf t u tn in \<open>auto simp: is_dir_def\<close>)
  then show ?thesis
    using e Symlink f w confined_trans [OF w] by (auto simp: copy_entry_def split: if_splits)
next
  case Special
  then show ?thesis using e wf by (auto simp: copy_entry_def confined_def)
qed

definition copied :: "time \<Rightarrow> node \<Rightarrow> node option" where
  "copied w n = (case n of File m c w' \<Rightarrow> Some (File m c w) | Special \<Rightarrow> None | _ \<Rightarrow> Some n)"

lemma copy_entry_exact:
  assumes e: "copy_entry target n d = (None, d')" and wf: "wf_tree (tree d)" and t: "target \<noteq> []"
    and fresh: "map_of (tree d) target = None" and p: "is_dir (butlast target) (tree d)"
  shows "map_of (tree d') =
    (case copied (wall d) n of None \<Rightarrow> map_of (tree d) | Some n' \<Rightarrow> (map_of (tree d))(target \<mapsto> n'))"
proof (cases n)
  case (Dir m)
  then have m: "MkdirAll target m d = (None, d')" using e by (simp add: copy_entry_def)
  show ?thesis using MkdirAll_child [OF m wf t p] fresh Dir by (simp add: copied_def)
next
  case (File m c w)
  then obtain d1 where mk: "MkdirAll (butlast target) 493 d = (None, d1)"
    using e by (auto simp: copy_entry_def copy_file_def split: prod.splits option.splits)
  have "\<not> (q \<noteq> [] \<and> under q (butlast target) \<and> map_of (tree d) q = None)" for q
    using p wf_tree_no_orphan [OF wf, of q "butlast target"]
    by (auto simp: is_dir_def under_def split: option.splits)
  then have "map_of (tree d1) q = map_of (tree d) q" for q
    using MkdirAll_ok [OF mk wf] by metis
  then have t1: "map_of (tree d1) = map_of (tree d)" by blast
  have w1: "wall d1 = wall d" using MkdirAll_ok [OF mk wf] by blast
  obtain f d2 where f: "fault d1 = (f, d2)" by fastforce
  have "tree d2 = tree d1" and "wall d2 = wall d1" using fault_state [OF f] by auto
  then show ?thesis
    using e File mk f t1 w1 fresh by (auto simp: copy_entry_def copy_file_def copied_def split: if_splits)
next
  case (Symlink s)
  obtain f d1 where f: "fault d = (f, d1)" by fastforce
  then have "tree d1 = tree d" using fault_state by blast
  then show ?thesis
    using e Symlink f by (auto simp: copy_entry_def copied_def split: if_splits)
next
  case Special
  then show ?thesis using e by (simp add: copy_entry_def copied_def)
qed

section \<open>The walk\<close>

lemma copy_walk_append:
  "copy_walk src dst (xs @ ys) d =
     (case copy_walk src dst xs d of (Some e, d) \<Rightarrow> (Some e, d) | (None, d) \<Rightarrow> copy_walk src dst ys d)"
  by (induction xs arbitrary: d) (auto split: prod.splits option.splits)

text \<open>The order of the walk: every entry comes after the directory it is in.\<close>

definition ordered :: "path \<Rightarrow> (path \<Rightarrow> node option) \<Rightarrow> path list \<Rightarrow> bool" where
  "ordered src N ps \<longleftrightarrow>
     (\<forall>ys p zs. ps = ys @ p # zs \<longrightarrow> under src p \<and> p \<notin> set ys \<and> N p \<noteq> None \<and>
        (p = src \<or> under src (butlast p) \<and> butlast p \<in> set ys \<and> (\<exists>m. N (butlast p) = Some (Dir m))))"

lemma ordered_prefix: "ordered src N (ps @ [p]) \<Longrightarrow> ordered src N ps"
  unfolding ordered_def by (metis append_Cons append_assoc)

lemma drop_butlast_src:
  "under src p \<Longrightarrow> p \<noteq> src \<Longrightarrow> dst @ drop (length src) (butlast p) = butlast (dst @ drop (length src) p)"
  by (auto simp: under_iff butlast_append)

lemma copy_walk_confined:
  assumes "ordered src N ps" and "copy_walk src dst (map (\<lambda>p. (p, the (N p))) ps) d = (e, d')"
    and "wf_tree (tree d)" and "dst \<noteq> []" and "is_dir (butlast dst) (tree d)"
  shows "confined dst d d' \<and> e \<noteq> Some NotExist"
  using assms(1,2)
proof (induction ps arbitrary: e d' rule: rev_induct)
  case Nil
  then show ?case using assms(3) by (simp add: confined_def)
next
  case (snoc p ps)
  obtain e1 d1 where w1: "copy_walk src dst (map (\<lambda>p. (p, the (N p))) ps) d = (e1, d1)" by fastforce
  have ih: "confined dst d d1 \<and> e1 \<noteq> Some NotExist" using snoc.IH [OF ordered_prefix [OF snoc.prems(1)] w1] .
  show ?case
  proof (cases e1)
    case (Some x)
    then show ?thesis using ih w1 snoc.prems(2) by (auto simp: copy_walk_append)
  next
    case None
    let ?t = "dst @ drop (length src) p"
    have o: "under src p" "p = src \<or> under src (butlast p)"
      using snoc.prems(1) by (auto simp: ordered_def)
    have pd: "under dst (butlast ?t) \<or> is_dir (butlast ?t) (tree d1)"
    proof (cases "p = src")
      case True
      then show ?thesis using confined_dir [OF _ assms(4,5)] ih by simp
    next
      case False
      then show ?thesis using drop_butlast_src [OF o(1) False, of dst] by (metis under_append)
    qed
    have ent: "copy_entry ?t (the (N p)) d1 = (e, d')"
      using snoc.prems(2) w1 None by (auto simp: copy_walk_append split: prod.splits option.splits)
    have "confined dst d1 d' \<and> e \<noteq> Some NotExist"
      by (rule copy_entry_confined [OF ent _ assms(4) _ _ pd])
        (use ih confined_dir [OF _ assms(4,5)] in \<open>auto simp: confined_def\<close>)
    then show ?thesis using ih confined_trans by blast
  qed
qed

lemma copy_walk_exact:
  assumes "ordered src N ps" and "copy_walk src dst (map (\<lambda>p. (p, the (N p))) ps) d = (None, d')"
    and "wf_tree (tree d)" and "dst \<noteq> []" and "is_dir (butlast dst) (tree d)"
    and "\<And>q. map_of (tree d) (dst @ q) = None"
  shows "map_of (tree d') (dst @ q) = (if src @ q \<in> set ps then copied (wall d) (the (N (src @ q))) else None)"
  using assms(1,2)
proof (induction ps arbitrary: d' q rule: rev_induct)
  case Nil
  then show ?case using assms(6) by simp
next
  case (snoc p ps)
  obtain d1 where w1: "copy_walk src dst (map (\<lambda>p. (p, the (N p))) ps) d = (None, d1)"
    and ent: "copy_entry (dst @ drop (length src) p) (the (N p)) d1 = (None, d')"
    using snoc.prems(2) by (auto simp: copy_walk_append split: prod.splits option.splits)
  note conf = copy_walk_confined [OF ordered_prefix [OF snoc.prems(1)] w1 assms(3-5)]
  note ih = snoc.IH [OF ordered_prefix [OF snoc.prems(1)] w1]
  have o: "under src p" "p \<notin> set ps"
      "p = src \<or> under src (butlast p) \<and> butlast p \<in> set ps \<and> (\<exists>m. N (butlast p) = Some (Dir m))"
    using snoc.prems(1) by (auto simp: ordered_def)
  obtain s where s: "p = src @ s" using o(1) by (auto simp: under_iff)
  have t: "dst @ drop (length src) p = dst @ s" by (simp add: s)
  have par: "is_dir (butlast (dst @ s)) (tree d1)"
  proof (cases "p = src")
    case True
    then show ?thesis using confined_dir [OF _ assms(4,5)] conf s by simp
  next
    case False
    then obtain m where b: "under src (butlast p)" "butlast p \<in> set ps" "N (butlast p) = Some (Dir m)"
      using o(3) by blast
    have "s \<noteq> []" using False s by auto
    then have bp: "butlast p = src @ butlast s" "butlast (dst @ s) = dst @ butlast s"
      by (simp_all add: s butlast_append)
    have "map_of (tree d1) (dst @ butlast s) = Some (Dir m)"
      using ih [of "butlast s"] b bp by (simp add: copied_def)
    then show ?thesis unfolding bp(2) using assms(4) by (auto simp: is_dir_Some)
  qed
  have x: "map_of (tree d') = (case copied (wall d1) (the (N p)) of None \<Rightarrow> map_of (tree d1)
      | Some n' \<Rightarrow> (map_of (tree d1))(dst @ s \<mapsto> n'))"
    by (rule copy_entry_exact [OF ent [unfolded t]])
      (use conf par assms(4) ih [of s] o(2) s in \<open>auto simp: confined_def\<close>)
  have w: "wall d1 = wall d" using conf by (simp add: confined_def)
  show ?case
    using ih [of q] o(2) by (cases "q = s") (auto simp: x w s split: option.splits)
qed

section \<open>The whole tree\<close>

definition walk_paths :: "path \<Rightarrow> fs \<Rightarrow> path list" where
  "walk_paths src t = sort (remdups (filter (under src) (map fst t)))"

lemma walk_alt: "walk src t = map (\<lambda>p. (p, the (map_of t p))) (walk_paths src t)"
  by (simp add: walk_def walk_paths_def)

lemma set_walk_paths: "p \<in> set (walk_paths src t) \<longleftrightarrow> under src p \<and> map_of t p \<noteq> None"
  by (auto simp: walk_paths_def map_of_eq_None_iff)

lemma less_snoc_self: "xs < xs @ [x]" for x :: "'a :: linorder"
  by (induction xs) auto

lemma walk_ordered:
  assumes "wf_tree t" and "src \<noteq> []" shows "ordered src (map_of t) (walk_paths src t)"
  unfolding ordered_def
proof (intro allI impI)
  fix ys p zs
  assume ps: "walk_paths src t = ys @ p # zs"
  have p: "under src p" "map_of t p \<noteq> None"
    using set_walk_paths [of p src t] ps by auto
  have d: "distinct (walk_paths src t)" and so: "sorted (walk_paths src t)"
    by (simp_all add: walk_paths_def)
  have "under src (butlast p) \<and> butlast p \<in> set ys \<and> (\<exists>m. map_of t (butlast p) = Some (Dir m))" if "p \<noteq> src"
  proof -
    have pn: "p \<noteq> []" and pd: "is_dir (butlast p) t" using p(2) wf_treeD [OF assms(1)] by auto
    obtain r where r: "p = src @ r" using p(1) by (auto simp: under_iff)
    have rn: "r \<noteq> []" using that r by auto
    then have b: "butlast p = src @ butlast r" using r by (simp add: butlast_append)
    then have "butlast p \<noteq> []" using assms(2) by simp
    then have dir: "\<exists>m. map_of t (butlast p) = Some (Dir m)" using pd by (simp add: is_dir_Some)
    then have "butlast p \<in> set (walk_paths src t)" using b by (auto simp: set_walk_paths)
    moreover have "butlast p < p" using less_snoc_self [of "butlast p" "last p"] pn by simp
    ultimately have "butlast p \<in> set ys" using ps so by (auto simp: sorted_append)
    then show ?thesis using b dir by simp
  qed
  then show "under src p \<and> p \<notin> set ys \<and> map_of t p \<noteq> None \<and>
      (p = src \<or> under src (butlast p) \<and> butlast p \<in> set ys \<and> (\<exists>m. map_of t (butlast p) = Some (Dir m)))"
    using p ps d by auto
qed

lemma copyTree_confined:
  assumes "copyTree src dst d = (e, d')" and "wf_tree (tree d)" and "dst \<noteq> []" and "is_dir (butlast dst) (tree d)"
    and "src \<noteq> []"
  shows "confined dst d d' \<and> (e = Some NotExist \<longrightarrow> map_of (tree d) src = None)"
proof -
  obtain f d1 where f: "fault d = (f, d1)" by fastforce
  have w: "confined dst d d1" and t: "tree d1 = tree d" using fault_confined [OF f assms(2)] by auto
  show ?thesis
  proof (cases "f \<or> map_of (tree d1) src = None")
    case True
    then show ?thesis using assms(1) f w t by (auto simp: copyTree_def split: if_splits)
  next
    case False
    then have c: "copy_walk src dst (walk src (tree d1)) d1 = (e, d')"
      using assms(1) f by (auto simp: copyTree_def)
    have "confined dst d1 d' \<and> e \<noteq> Some NotExist"
      by (rule copy_walk_confined [OF walk_ordered c [unfolded walk_alt]]) (use assms t in auto)
    then show ?thesis using confined_trans [OF w] by blast
  qed
qed

lemma copyTree_exact:
  assumes "copyTree src dst d = (None, d')" and "wf_tree (tree d)" and "dst \<noteq> []" and "is_dir (butlast dst) (tree d)"
    and "src \<noteq> []" and "\<And>q. map_of (tree d) (dst @ q) = None"
  shows "map_of (tree d') (dst @ q) =
    (case map_of (tree d) (src @ q) of None \<Rightarrow> None | Some n \<Rightarrow> copied (wall d) n)"
proof -
  obtain d1 where f: "fault d = (False, d1)" and c: "copy_walk src dst (walk src (tree d1)) d1 = (None, d')"
    using assms(1) by (auto simp: copyTree_def split: prod.splits if_splits)
  have t: "tree d1 = tree d" "wall d1 = wall d" using fault_state [OF f] by auto
  have "map_of (tree d') (dst @ q) = (if src @ q \<in> set (walk_paths src (tree d1))
      then copied (wall d1) (the (map_of (tree d1) (src @ q))) else None)"
    by (rule copy_walk_exact [OF walk_ordered c [unfolded walk_alt]]) (use assms t in auto)
  then show ?thesis using t by (auto simp: set_walk_paths split: option.splits)
qed

text \<open>Without faults, a copy to a fresh place goes through.\<close>

lemma MkdirAll_succeeds:
  assumes "faults d = []" and "wf_tree (tree d)" and "map_of (tree d) p = None \<or> is_dir p (tree d)"
    and "p = [] \<or> is_dir (butlast p) (tree d)"
  shows "fst (MkdirAll p perm d) = None"
proof -
  have "map_of (tree d) q = None \<or> is_dir q (tree d)" if "q \<in> set (ancestors p)" for q
  proof (cases "q = p")
    case False
    have "q \<noteq> []" "under q p" using that by (auto simp: set_ancestors)
    then obtain r where r: "p = q @ r" "r \<noteq> []" using False by (auto simp: under_iff)
    then have b: "butlast p = q @ butlast r" by (simp add: butlast_append)
    have pd: "is_dir (butlast p) (tree d)" using assms(4) r by auto
    show ?thesis
    proof (cases "butlast r = []")
      case True
      then show ?thesis using pd b by simp
    next
      case False
      then have "map_of (tree d) (q @ butlast r) \<noteq> None" using pd b \<open>q \<noteq> []\<close> by (auto simp: is_dir_Some)
      then show ?thesis using wf_tree_ancestor [OF assms(2) _ False] by blast
    qed
  next
    case True
    then show ?thesis using assms(3) by simp
  qed
  then show ?thesis using assms(1) by (simp add: MkdirAll_def list_all_iff)
qed

lemma copy_entry_succeeds:
  assumes "faults d = []" and "wf_tree (tree d)" and "target \<noteq> []" and "map_of (tree d) target = None"
    and "is_dir (butlast target) (tree d)"
  shows "fst (copy_entry target n d) = None"
proof (cases n)
  case (Dir m)
  then show ?thesis using assms by (simp add: copy_entry_def MkdirAll_succeeds)
next
  case (File m c w)
  have p: "butlast target = [] \<or> is_dir (butlast (butlast target)) (tree d)"
    using assms(2,5) wf_treeD [OF assms(2), of "butlast target"] by (cases "butlast target = []") (auto simp: is_dir_Some)
  then have "fst (MkdirAll (butlast target) 493 d) = None" using assms by (intro MkdirAll_succeeds) auto
  then obtain d1 where mk: "MkdirAll (butlast target) 493 d = (None, d1)" by (metis prod.collapse)
  have "\<not> (q \<noteq> [] \<and> under q (butlast target) \<and> map_of (tree d) q = None)" for q
    using assms(5) wf_tree_no_orphan [OF assms(2), of q "butlast target"]
    by (auto simp: is_dir_def under_def split: option.splits)
  then have "map_of (tree d1) target = None" and "faults d1 = []"
    using MkdirAll_ok [OF mk assms(2)] assms(1,4) by metis+
  then show ?thesis using File mk by (simp add: copy_entry_def copy_file_def)
next
  case (Symlink s)
  then show ?thesis using assms by (simp add: copy_entry_def)
qed (simp add: copy_entry_def)

lemma copy_walk_succeeds:
  assumes "ordered src N ps" and "faults d = []" and "wf_tree (tree d)" and "dst \<noteq> []"
    and "is_dir (butlast dst) (tree d)" and "\<And>q. map_of (tree d) (dst @ q) = None"
  shows "fst (copy_walk src dst (map (\<lambda>p. (p, the (N p))) ps) d) = None"
  using assms(1)
proof (induction ps rule: rev_induct)
  case (snoc p ps)
  note op = ordered_prefix [OF snoc.prems]
  obtain d1 where w1: "copy_walk src dst (map (\<lambda>p. (p, the (N p))) ps) d = (None, d1)"
    using snoc.IH [OF op] by (metis prod.collapse)
  note conf = copy_walk_confined [OF op w1 assms(3-5)]
  note ex = copy_walk_exact [OF op w1 assms(3-6)]
  have o: "under src p" "p \<notin> set ps"
      "p = src \<or> under src (butlast p) \<and> butlast p \<in> set ps \<and> (\<exists>m. N (butlast p) = Some (Dir m))"
    using snoc.prems by (auto simp: ordered_def)
  obtain s where s: "p = src @ s" using o(1) by (auto simp: under_iff)
  have par: "is_dir (butlast (dst @ s)) (tree d1)"
  proof (cases "s = []")
    case True
    then show ?thesis using confined_dir [OF _ assms(4,5)] conf by simp
  next
    case False
    then obtain m where b: "src @ butlast s \<in> set ps" "N (src @ butlast s) = Some (Dir m)"
      using o(3) s by (auto simp: butlast_append)
    have "map_of (tree d1) (dst @ butlast s) = Some (Dir m)"
      using ex [of "butlast s"] b by (simp add: copied_def)
    then show ?thesis using assms(4) False by (auto simp: is_dir_Some butlast_append)
  qed
  have "fst (copy_entry (dst @ s) (the (N p)) d1) = None"
    by (rule copy_entry_succeeds) (use conf assms par ex [of s] o(2) s in \<open>auto simp: confined_def\<close>)
  then show ?case using w1 s by (auto simp: copy_walk_append split: prod.splits option.splits)
qed simp

lemma copyTree_succeeds:
  assumes "faults d = []" and "wf_tree (tree d)" and "dst \<noteq> []"
    and "is_dir (butlast dst) (tree d)" and "\<And>q. map_of (tree d) (dst @ q) = None"
    and "src \<noteq> []" and "map_of (tree d) src \<noteq> None"
  shows "fst (copyTree src dst d) = None"
  using copy_walk_succeeds [OF walk_ordered [OF assms(2,6)] assms(1-5)] assms(1,7)
  by (simp add: copyTree_def walk_alt)

end
