(* ===== verification/Cache_Correct.thy ===== *)
theory Cache_Correct
  imports Cache_Copy
begin

text \<open>
  What the warm cache guarantees: in-use directories are never removed by the store's own
  operations; a committed volume boots back complete; eviction takes the least recently used idle
  templates and stops at the cap; and where the code departs from its comments: two ways in which
  cleanup removes the generation the manifest names, and a lockfile that is a symbolic link.
\<close>

section \<open>What an operation leaves alone\<close>

definition same_meta :: "store \<Rightarrow> store \<Rightarrow> bool" where
  "same_meta c c' \<longleftrightarrow> Root c' = Root c \<and> MaxBytes c' = MaxBytes c \<and> inUse c' = inUse c \<and>
     wall (disk c') = wall (disk c) \<and> (faults (disk c) = [] \<longrightarrow> faults (disk c') = [])"

definition node_at :: "store \<Rightarrow> path \<Rightarrow> node option" where
  "node_at c = map_of (files c)"

lemma same_meta_refl [simp]: "same_meta c c"
  by (simp add: same_meta_def)

lemma same_meta_trans: "same_meta a b \<Longrightarrow> same_meta b c \<Longrightarrow> same_meta a c"
  by (simp add: same_meta_def)

lemma same_meta_uses: "same_meta c c' \<Longrightarrow> uses p c' = uses p c"
  by (simp add: same_meta_def uses_def)

lemma same_meta_busyUnder: "same_meta c c' \<Longrightarrow> busyUnder p c' = busyUnder p c"
  by (simp add: same_meta_def busyUnder_def)

lemma on_disk_meta:
  assumes "on_disk f c = (e, c')" and "\<And>r d'. f (disk c) = (r, d') \<Longrightarrow> wall d' = wall (disk c) \<and>
    (faults (disk c) = [] \<longrightarrow> faults d' = [])"
  shows "same_meta c c'"
  using assms by (auto simp: on_disk_def Let_def same_meta_def split: prod.splits)

lemma on_disk_tree: "on_disk f c = (e, c') \<Longrightarrow> f (disk c) = (e, disk c') \<and> files c' = tree (disk c')"
  by (auto simp: on_disk_def Let_def files_def split: prod.splits)

lemma RemoveAll_store:
  assumes "on_disk (RemoveAll p) c = (e, c')" and "wf_tree (files c)"
  shows "wf_tree (files c') \<and> same_meta c c' \<and> (faults (disk c) = [] \<longrightarrow> e = None) \<and>
    node_at c' = (if e = None then (\<lambda>q. if under p q then None else node_at c q) else node_at c)"
  using assms RemoveAll_ok [of "disk c" p]
  by (auto simp: on_disk_def Let_def same_meta_def files_def node_at_def split: prod.splits)

lemma Rename_store:
  assumes "on_disk (Rename a b) c = (None, c')" and "wf_tree (files c)"
  shows "wf_tree (files c') \<and> same_meta c c' \<and> node_at c a \<noteq> None \<and> \<not> under a b \<and> \<not> under b a \<and>
    node_at c' q = (if under b q then node_at c (a @ drop (length b) q)
       else if under a q then None else node_at c q)"
  using assms Rename_ok [of a b "disk c"]
  by (auto simp: on_disk_def Let_def same_meta_def files_def node_at_def split: prod.splits)

lemma fault_same: "fault d = (f, d') \<Longrightarrow> tree d' = tree d \<and> wall d' = wall d \<and> (faults d = [] \<longrightarrow> faults d' = [])"
  by (cases "faults d") (auto simp: fault_def)

lemma Rename_failed:
  assumes "on_disk (Rename a b) c = (Some e, c')"
  shows "files c' = files c \<and> same_meta c c'"
  using assms fault_same [of "disk c"]
  by (auto simp: on_disk_def Rename_def Let_def same_meta_def files_def split: prod.splits if_splits)

lemma read_only:
  assumes "on_disk (OS_ReadFile p) c = (r, c') \<or> on_disk (ReadDir p) c = (r', c')"
  shows "files c' = files c \<and> same_meta c c'"
  using assms fault_same [of "disk c"]
  by (auto simp: on_disk_def OS_ReadFile_def ReadDir_def Let_def same_meta_def files_def
      split: prod.splits if_splits option.splits node.splits)

lemma Manifest_read_only: "Manifest l slug c = (r, c') \<Longrightarrow> files c' = files c \<and> same_meta c c'"
  by (auto simp: Manifest_def split: prod.splits sum.splits io_error.splits option.splits if_splits
      dest: read_only [OF disjI1])

lemma manifestFromDir_read_only: "manifestFromDir l sd c = (r, c') \<Longrightarrow> files c' = files c \<and> same_meta c c'"
  by (auto simp: manifestFromDir_def split: prod.splits sum.splits dest: read_only [OF disjI1])

lemma template_read_only: "template_of l dir c = (t, c') \<Longrightarrow> t_dir t = dir \<and> files c' = files c \<and> same_meta c c'"
  by (auto simp: template_of_def Let_def split: prod.splits dest: manifestFromDir_read_only)

lemma templates_read_only:
  "templates_of l dirs c = (ts, c') \<Longrightarrow> map t_dir ts = dirs \<and> files c' = files c \<and> same_meta c c'"
proof (induction dirs arbitrary: c ts c')
  case (Cons dir dirs)
  obtain t c1 where t: "template_of l dir c = (t, c1)" by fastforce
  obtain ts' c2 where ts': "templates_of l dirs c1 = (ts', c2)" by fastforce
  show ?case
    using Cons.prems Cons.IH [OF ts'] template_read_only [OF t] t ts' same_meta_trans by auto
qed simp

section \<open>The cleanup loop\<close>

lemma t_not_gen: "genShape g \<Longrightarrow> g \<noteq> ''t-'' @ name"
  by (auto simp: genShape_def HasPrefix_def)

lemma clean_entry_frame:
  assumes "wf_tree (files c)"
  shows "wf_tree (files (clean_entry sd cur name c)) \<and> same_meta c (clean_entry sd cur name c) \<and>
    (\<forall>q. \<not> under (sd @ [name]) q \<and> \<not> under (sd @ [''t-'' @ name]) q \<longrightarrow>
       node_at (clean_entry sd cur name c) q = node_at c q) \<and>
    (\<not> is_dir (sd @ [name]) (files c) \<or> genShape name \<and> (name = cur \<or> busy (sd @ [name]) c) \<longrightarrow>
       clean_entry sd cur name c = c)"
proof (cases "\<not> is_dir (sd @ [name]) (files c) \<or> genShape name \<and> (name = cur \<or> busy (sd @ [name]) c) \<or>
    \<not> genShape name \<and> \<not> HasPrefix name ''t-g-''")
  case True
  then show ?thesis using assms by (auto simp: clean_entry_def)
next
  case False
  show ?thesis
  proof (cases "genShape name")
    case gen: False
    obtain e c' where r: "on_disk (RemoveAll (sd @ [name])) c = (e, c')" by fastforce
    have ce: "clean_entry sd cur name c = c'" using False gen r by (simp add: clean_entry_def)
    have "node_at c' q = node_at c q" if "\<not> under (sd @ [name]) q" for q
      using RemoveAll_store [OF r assms] that by simp
    then show ?thesis unfolding ce using RemoveAll_store [OF r assms] False gen by blast
  next
    case gen: True
    obtain e c1 where n: "on_disk (Rename (sd @ [name]) (sd @ [''t-'' @ name])) c = (e, c1)" by fastforce
    show ?thesis
    proof (cases e)
      case (Some x)
      then have "clean_entry sd cur name c = c1" using False gen n by (simp add: clean_entry_def)
      then show ?thesis using Rename_failed [of _ _ c x c1] n Some False gen assms by (simp add: node_at_def)
    next
      case None
      obtain e2 c2 where r: "on_disk (RemoveAll (sd @ [''t-'' @ name])) c1 = (e2, c2)" by fastforce
      have ce: "clean_entry sd cur name c = c2" using False gen n r None by (simp add: clean_entry_def)
      note m = Rename_store [OF n [unfolded None] assms]
      have w1: "wf_tree (files c1)" and s1: "same_meta c c1" using m by auto
      note r2 = RemoveAll_store [OF r w1]
      have "node_at c2 q = node_at c q"
        if "\<not> under (sd @ [name]) q" "\<not> under (sd @ [''t-'' @ name]) q" for q
        using m [of q] r2 that by (simp split: if_splits)
      moreover have "same_meta c c2" using r2 s1 same_meta_trans by blast
      ultimately show ?thesis unfolding ce using r2 False gen by blast
    qed
  qed
qed

lemma clean_fold_frame:
  assumes "wf_tree (files c)"
  shows "wf_tree (files (fold (clean_entry sd cur) names c)) \<and> same_meta c (fold (clean_entry sd cur) names c) \<and>
    (\<forall>q. \<not> under sd q \<longrightarrow> node_at (fold (clean_entry sd cur) names c) q = node_at c q)"
  using assms
proof (induction names arbitrary: c)
  case (Cons name names)
  note f = clean_entry_frame [OF Cons.prems, of sd cur name]
  have ih: "wf_tree (files (fold (clean_entry sd cur) names (clean_entry sd cur name c)))"
    "same_meta (clean_entry sd cur name c) (fold (clean_entry sd cur) names (clean_entry sd cur name c))"
    "\<And>q. \<not> under sd q \<Longrightarrow> node_at (fold (clean_entry sd cur) names (clean_entry sd cur name c)) q =
       node_at (clean_entry sd cur name c) q"
    using Cons.IH f by auto
  have "node_at (clean_entry sd cur name c) q = node_at c q" if "\<not> under sd q" for q
  proof -
    have "\<not> under (sd @ [x]) q" for x using that under_trans [of sd "sd @ [x]" q] by auto
    then show ?thesis using f by blast
  qed
  moreover have "same_meta c (fold (clean_entry sd cur) names (clean_entry sd cur name c))"
    using f ih(2) same_meta_trans by blast
  ultimately show ?case using ih by simp
qed simp

text \<open>Generations that are current or in use survive, and so do files.\<close>

lemma clean_fold_protects:
  assumes "wf_tree (files c)" and "genShape g" and "g = cur \<or> busy (sd @ [g]) c" and "under (sd @ [g]) q"
  shows "node_at (fold (clean_entry sd cur) names c) q = node_at c q"
  using assms(1,3)
proof (induction names arbitrary: c)
  case (Cons name names)
  note f = clean_entry_frame [OF Cons.prems(1), of sd cur name]
  have "node_at (clean_entry sd cur name c) q = node_at c q"
  proof (cases "name = g")
    case True
    then show ?thesis using f Cons.prems(2) assms(2) by auto
  next
    case False
    have "\<not> under (sd @ [name]) q" "\<not> under (sd @ [''t-'' @ name]) q"
      using False t_not_gen [OF assms(2), of name] assms(4) by (auto simp: under_iff)
    then show ?thesis using f by blast
  qed
  moreover have "g = cur \<or> busy (sd @ [g]) (clean_entry sd cur name c)"
    using Cons.prems(2) same_meta_uses f by (auto simp: busy_def)
  ultimately show ?case using Cons.IH [of "clean_entry sd cur name c"] f by simp
qed simp

lemma clean_fold_file:
  assumes "wf_tree (files c)" and "node_at c (sd @ [x]) = Some (File m content w)"
    and "\<And>name. x \<noteq> ''t-'' @ name"
  shows "node_at (fold (clean_entry sd cur) names c) (sd @ [x]) = Some (File m content w)"
  using assms(1,2)
proof (induction names arbitrary: c)
  case (Cons name names)
  note f = clean_entry_frame [OF Cons.prems(1), of sd cur name]
  have "node_at (clean_entry sd cur name c) (sd @ [x]) = node_at c (sd @ [x])"
  proof (cases "name = x")
    case True
    then show ?thesis using f Cons.prems(2) by (auto simp: is_dir_Some node_at_def)
  next
    case False
    then show ?thesis using f assms(3) by (auto simp: under_iff)
  qed
  then show ?case using Cons.IH [of "clean_entry sd cur name c"] Cons.prems f by simp
qed simp

lemma cleanGenerations_protects:
  assumes "wf_tree (files c)" and "genShape g" and "uses (sd @ [g]) c > 0" and "under (sd @ [g]) q"
  shows "node_at (cleanGenerations l (\<lambda>c. c) sd c) q = node_at c q"
proof -
  obtain mf c1 where m: "manifestFromDir l sd c = (mf, c1)" by fastforce
  obtain r c2 where d: "on_disk (ReadDir sd) c1 = (r, c2)" by fastforce
  have 1: "files c1 = files c" "same_meta c c1" using manifestFromDir_read_only [OF m] by auto
  have 2: "files c2 = files c" "same_meta c c2"
    using read_only [OF disjI2 [OF d]] 1 same_meta_trans by auto
  have "busy (sd @ [g]) c2" using assms(3) same_meta_uses [OF 2(2)] by (simp add: busy_def)
  then have "node_at (fold (clean_entry sd cur) names c2) q = node_at c2 q" for cur names
    using clean_fold_protects [OF _ assms(2) _ assms(4), of c2 cur names] 2 assms(1) by simp
  then show ?thesis using m d 2 by (auto simp: cleanGenerations_def node_at_def split: sum.splits)
qed

section \<open>In-use directories\<close>

lemma cleanGenerations_frame:
  assumes "wf_tree (files c)" and "\<not> under sd q"
  shows "node_at (cleanGenerations l (\<lambda>c. c) sd c) q = node_at c q"
proof -
  obtain mf c1 where m: "manifestFromDir l sd c = (mf, c1)" by fastforce
  obtain r c2 where d: "on_disk (ReadDir sd) c1 = (r, c2)" by fastforce
  have f: "files c2 = files c"
    using manifestFromDir_read_only [OF m] read_only [OF disjI2 [OF d]] by simp
  have "node_at (fold (clean_entry sd cur) names c2) q = node_at c2 q" for cur names
    using clean_fold_frame [of c2 sd cur names] f assms by simp
  then show ?thesis using m d f by (auto simp: cleanGenerations_def node_at_def split: sum.splits)
qed

lemma evict_protects:
  assumes "wf_tree (files c)" and "\<forall>t \<in> set ts. \<not> busyUnder (t_dir t) c \<longrightarrow> \<not> under (t_dir t) q"
  shows "node_at (snd (evict (\<lambda>c. c) ts n c)) q = node_at c q"
  using assms
proof (induction ts arbitrary: n c)
  case (Cons t ts)
  show ?case
  proof (cases "n \<le> MaxBytes c \<or> busyUnder (t_dir t) c")
    case True
    then show ?thesis using Cons by auto
  next
    case False
    obtain e c1 where r: "on_disk (RemoveAll (t_dir t)) c = (e, c1)" by fastforce
    note rm = RemoveAll_store [OF r Cons.prems(1)]
    have "node_at c1 q = node_at c q" using rm False Cons.prems(2) by simp
    moreover have "node_at (snd (evict (\<lambda>c. c) ts m c1)) q = node_at c1 q" for m
      by (rule Cons.IH) (use rm same_meta_busyUnder Cons.prems(2) in auto)
    ultimately show ?thesis using False r by (cases e) (simp_all split: prod.splits, metis snd_conv)
  qed
qed simp

lemma busyUnder_uses: "uses p c > 0 \<Longrightarrow> under d p \<Longrightarrow> p \<noteq> d \<Longrightarrow> busyUnder d c"
proof -
  assume u: "uses p c > 0" and d: "under d p" "p \<noteq> d"
  obtain n where "map_of (inUse c) p = Some n" using u by (auto simp: uses_def split: option.splits)
  then have "(p, n) \<in> set (inUse c)" by (rule map_of_SomeD)
  then show ?thesis using d unfolding busyUnder_def list_ex_iff by force
qed

lemma children_iff: "name \<in> set (children d t) \<longleftrightarrow> map_of t (d @ [name]) \<noteq> None"
proof
  assume "name \<in> set (children d t)"
  then obtain p n where "(p, n) \<in> set t" "p \<noteq> []" "butlast p = d" "last p = name"
    by (auto simp: children_def)
  then have "p = d @ [name]" by (auto intro: append_butlast_last_id [symmetric])
  moreover have "map_of t p \<noteq> None"
    using \<open>(p, n) \<in> set t\<close> by (simp add: map_of_eq_None_iff) (metis fst_conv image_eqI)
  ultimately show "map_of t (d @ [name]) \<noteq> None" by simp
next
  assume "map_of t (d @ [name]) \<noteq> None"
  then have "d @ [name] \<in> fst ` set t" by (simp add: map_of_eq_None_iff)
  then obtain e where "e \<in> set t" "fst e = d @ [name]" by auto
  then show "name \<in> set (children d t)" by (force simp: children_def)
qed

lemma ReadDir_children:
  "on_disk (ReadDir p) c = (Inr names, c') \<Longrightarrow> names = children p (files c)"
  using fault_same [of "disk c"]
  by (auto simp: on_disk_def ReadDir_def Let_def files_def split: prod.splits if_splits)

lemma Sweep_protects:
  assumes "wf_tree (files c)" and "uses p c > 0" and "under p q"
    and "p = Root c @ [''repos'', k, g] \<or> p = Root c @ [''runs'', r]"
  shows "node_at (snd (Sweep l (\<lambda>c. c) c)) q = node_at c q"
proof (cases "MaxBytes c \<le> 0")
  case True
  then show ?thesis by (simp add: Sweep_def)
next
  case False
  let ?repos = "Root c @ [''repos'']"
  obtain res c1 where d: "on_disk (ReadDir ?repos) c = (res, c1)" by fastforce
  have c1: "files c1 = files c" "same_meta c c1" using read_only [OF disjI2 [OF d]] by auto
  show ?thesis
  proof (cases res)
    case (Inl e)
    then show ?thesis using False d c1 by (simp add: Sweep_def node_at_def)
  next
    case (Inr names)
    let ?dirs = "map (\<lambda>name. ?repos @ [name])
      (filter (\<lambda>name. is_dir (?repos @ [name]) (files c1) \<and> legacyKey name) names)"
    obtain ts c2 where t: "templates_of l ?dirs c1 = (ts, c2)" by fastforce
    have dirs: "map t_dir ts = ?dirs" and c2: "files c2 = files c" "same_meta c c2"
      using templates_read_only [OF t] c1 same_meta_trans by (simp, simp, blast)
    have safe: "\<not> busyUnder (t_dir t) c2 \<longrightarrow> \<not> under (t_dir t) q" if "t \<in> set ts" for t
    proof -
      have "t_dir t \<in> set (map t_dir ts)" using that by simp
      then have "t_dir t \<in> set ?dirs" by (simp only: dirs)
      then obtain name where n: "t_dir t = ?repos @ [name]" by auto
      show ?thesis
      proof (cases "under (t_dir t) p")
        case True
        have "t_dir t \<noteq> p" using n assms(4) by auto
        then show ?thesis using busyUnder_uses [OF assms(2) True] same_meta_busyUnder [OF c2(2)] by simp
      next
        case False
        have "\<not> under p (t_dir t)" using n assms(4) by (auto simp: under_iff)
        then show ?thesis using under_disjoint [of p "t_dir t" q] assms(3) False by blast
      qed
    qed
    have "node_at (snd (evict (\<lambda>c. c) (sort_key t_lastUsed ts) m c2)) q = node_at c2 q" for m
      by (rule evict_protects) (use c2 assms(1) safe in auto)
    then show ?thesis
      using False d Inr t c2 by (auto simp: Sweep_def Let_def node_at_def)
  qed
qed

lemma Drop_protects:
  assumes "wf_tree (files c)" and "uses p c > 0" and "under p q"
    and "p = Root c @ [''repos'', k, g] \<and> node_at c p \<noteq> None \<or> p = Root c @ [''runs'', r]"
  shows "node_at (snd (Drop l slug c)) q = node_at c q"
proof -
  let ?sd = "slugDir l c slug"
  obtain m c1 where m: "Manifest l slug c = (m, c1)" by fastforce
  obtain res c2 where d: "on_disk (ReadDir ?sd) c1 = (res, c2)" by fastforce
  obtain e c3 where r: "on_disk (RemoveAll ?sd) c2 = (e, c3)" by fastforce
  have c1: "files c1 = files c" "same_meta c c1" using Manifest_read_only [OF m] by auto
  have c2: "files c2 = files c" "same_meta c c2"
    using read_only [OF disjI2 [OF d]] c1 same_meta_trans by (simp, blast)
  have cut: "node_at c3 q = node_at c q"
    if names: "res = Inr names" and idle: "\<not> list_ex (\<lambda>name. uses (?sd @ [name]) c2 > 0) names" for names
  proof (cases "under ?sd p")
    case True
    then have p: "p = ?sd @ [g]" "node_at c p \<noteq> None" using assms(4) by (auto simp: slugDir_def under_iff)
    have "g \<in> set names"
      using ReadDir_children [OF d [unfolded names]] p c1 by (simp add: children_iff node_at_def)
    then show ?thesis using idle p assms(2) same_meta_uses [OF c2(2)] by (auto simp: list_ex_iff)
  next
    case False
    have "\<not> under p ?sd" using assms(4) by (auto simp: slugDir_def under_iff)
    then have "\<not> under ?sd q" using under_disjoint [of p ?sd q] assms(3) False by blast
    then show ?thesis using RemoveAll_store [OF r] c2 assms(1) by (simp add: node_at_def)
  qed
  then show ?thesis
    using m d r c1 c2 by (auto simp: Drop_def Let_def node_at_def split: sum.splits option.splits prod.splits)
qed

lemma Release_protects:
  assumes "wf_tree (files c)" and "uses p c > 0" and "under p q"
    and "p = Root c @ [''repos'', k, g] \<or> p = Root c @ [''runs'', r]"
  shows "node_at (Release l i c) q = node_at c q"
proof -
  let ?rd = "runDir l c i"
  obtain e c1 where rm: "on_disk (RemoveAll ?rd) c = (e, c1)" by fastforce
  have "\<not> under ?rd q" if "uses ?rd c \<le> 0"
  proof -
    have "p \<noteq> ?rd" using that assms(2) by auto
    then have "\<not> under ?rd p" "\<not> under p ?rd" using assms(4) by (auto simp: runDir_def under_iff)
    then show ?thesis using under_disjoint assms(3) by blast
  qed
  then show ?thesis using RemoveAll_store [OF rm assms(1)] rm by (auto simp: Release_def)
qed

text \<open>
  C14. What is in use stays: while a generation is being copied from, or a run's volume is being
  committed, neither releasing a run, dropping a template, the cleanup after another commit nor a
  sweep of the cache changes anything in it, whichever of their file operations fail.
\<close>

theorem in_use_protected:
  assumes "wf_tree (files c)" and "uses p c > 0" and "under p q"
    and "p = Root c @ [''repos'', k, g] \<and> genShape g \<and> node_at c p \<noteq> None \<or> p = Root c @ [''runs'', r]"
  shows "node_at (Release l i c) q = node_at c q \<and> node_at (snd (Drop l slug c)) q = node_at c q \<and>
    node_at (cleanGenerations l (\<lambda>c. c) (slugDir l c slug) c) q = node_at c q \<and>
    node_at (snd (Sweep l (\<lambda>c. c) c)) q = node_at c q"
proof (intro conjI)
  show "node_at (Release l i c) q = node_at c q"
    by (rule Release_protects [OF assms(1-3), of k g r]) (use assms(4) in blast)
  show "node_at (snd (Drop l slug c)) q = node_at c q"
    by (rule Drop_protects [OF assms(1-3), of k g r]) (use assms(4) in blast)
  show "node_at (snd (Sweep l (\<lambda>c. c) c)) q = node_at c q"
    by (rule Sweep_protects [OF assms(1-3), of k g r]) (use assms(4) in blast)
  show "node_at (cleanGenerations l (\<lambda>c. c) (slugDir l c slug) c) q = node_at c q"
  proof (cases "under (slugDir l c slug) p")
    case True
    then have "p = slugDir l c slug @ [g]" "genShape g" using assms(4) by (auto simp: slugDir_def under_iff)
    then show ?thesis using cleanGenerations_protects [OF assms(1)] assms(2,3) by blast
  next
    case False
    have "\<not> under p (slugDir l c slug)" using assms(4) by (auto simp: slugDir_def under_iff)
    then have "\<not> under (slugDir l c slug) q" using under_disjoint False assms(3) by blast
    then show ?thesis by (rule cleanGenerations_frame [OF assms(1)])
  qed
qed

definition demo_lib :: lib where
  "demo_lib = \<lparr>unicode_lower = (\<lambda>s. s), sha256hex = (\<lambda>s. s), json_enc = (\<lambda>mf. MfGen mf),
     json_dec = (\<lambda>s. Some (no_manifest\<lparr>MfRepo := ''o/n'', MfGen := s\<rparr>))\<rparr>"

definition demo_tree :: fs where
  "demo_tree =
     [([''runs''], Dir 448), ([''runs'', ''r1''], Dir 448), ([''runs'', ''r1'', ''go.mod''], File 420 ''module m'' 5),
      ([''repos''], Dir 448), ([''repos'', ''k''], Dir 448), ([''repos'', ''k'', ''g-1''], Dir 448),
      ([''repos'', ''k'', ''manifest.json''], File 384 ''g-1'' 7)]"

definition demo_store :: store where
  "demo_store = \<lparr>Root = [], MaxBytes = 4, inUse = [([''repos'', ''k'', ''g-1''], 1)],
     disk = \<lparr>tree = demo_tree, faults = [], wall = 9\<rparr>\<rparr>"

lemma demo_wf: "wf_tree demo_tree"
  by (auto simp: wf_tree_def demo_tree_def is_dir_def split: if_splits)

theorem in_use_protected_witness:
  "node_at (snd (Drop demo_lib ''k'' demo_store)) [''repos'', ''k'', ''g-1''] = Some (Dir 448)"
proof -
  let ?p = "[''repos'', ''k'', ''g-1'']"
  have g: "genShape ''g-1''" by code_simp
  have u: "uses ?p demo_store > 0" by (simp add: uses_def demo_store_def)
  have n: "node_at demo_store ?p = Some (Dir 448)"
    by (simp add: node_at_def files_def demo_store_def demo_tree_def)
  have w: "wf_tree (files demo_store)" using demo_wf by (simp add: files_def demo_store_def)
  have r: "Root demo_store = []" by (simp add: demo_store_def)
  show ?thesis
    using in_use_protected [OF w u under_refl, of "''k''" "''g-1''" "[]" demo_lib "[]" "''k''"] g n r by simp
qed

section \<open>Eviction\<close>

text \<open>What the loop has freed after looking at the first \<open>k\<close> templates.\<close>

definition idle_size :: "store \<Rightarrow> template list \<Rightarrow> int" where
  "idle_size c ts = sum_list (map t_size (filter (\<lambda>t. \<not> busyUnder (t_dir t) c) ts))"

lemma evict_lru:
  assumes "evict (\<lambda>c. c) ts n c = (removed, c')" and "faults (disk c) = []" and "wf_tree (files c)"
  shows "\<exists>k \<le> length ts. removed = map t_dir (filter (\<lambda>t. \<not> busyUnder (t_dir t) c) (take k ts)) \<and>
    (k < length ts \<longrightarrow> n - idle_size c (take k ts) \<le> MaxBytes c) \<and>
    (\<forall>j < k. MaxBytes c < n - idle_size c (take j ts))"
  using assms
proof (induction ts arbitrary: n c removed)
  case Nil
  then show ?case by simp
next
  case (Cons t ts)
  consider "n \<le> MaxBytes c" | "\<not> n \<le> MaxBytes c" "busyUnder (t_dir t) c"
    | "\<not> n \<le> MaxBytes c" "\<not> busyUnder (t_dir t) c" by blast
  then show ?case
  proof cases
    case 1
    then show ?thesis using Cons.prems by (intro exI [of _ 0]) (simp add: idle_size_def)
  next
    case 2
    then have "evict (\<lambda>c. c) ts n c = (removed, c')" using Cons.prems by simp
    from Cons.IH [OF this Cons.prems(2,3)] obtain k where
      k: "k \<le> length ts" "removed = map t_dir (filter (\<lambda>t. \<not> busyUnder (t_dir t) c) (take k ts))"
      "k < length ts \<longrightarrow> n - idle_size c (take k ts) \<le> MaxBytes c"
      "\<forall>j < k. MaxBytes c < n - idle_size c (take j ts)" by blast
    have "\<forall>j < Suc k. MaxBytes c < n - idle_size c (take j (t # ts))"
      using k(4) 2 by (auto simp: less_Suc_eq_0_disj idle_size_def)
    then show ?thesis using k 2 by (intro exI [of _ "Suc k"]) (simp add: idle_size_def)
  next
    case 3
    obtain e c1 where r: "on_disk (RemoveAll (t_dir t)) c = (e, c1)" by fastforce
    note rm = RemoveAll_store [OF r Cons.prems(3)]
    then have e: "e = None" and s1: "same_meta c c1" and f1: "faults (disk c1) = []"
      using Cons.prems(2) by (auto simp: same_meta_def)
    obtain rest where ev: "evict (\<lambda>c. c) ts (n - t_size t) c1 = (rest, c')" and rem: "removed = t_dir t # rest"
      using Cons.prems(1) 3 r e by (auto split: prod.splits)
    have b: "busyUnder p c1 = busyUnder p c" for p using s1 by (rule same_meta_busyUnder)
    have m: "MaxBytes c1 = MaxBytes c" using s1 by (simp add: same_meta_def)
    have i: "idle_size c1 xs = idle_size c xs" for xs by (simp add: idle_size_def b)
    from Cons.IH [OF ev f1] rm obtain k where
      k: "k \<le> length ts" "rest = map t_dir (filter (\<lambda>t. \<not> busyUnder (t_dir t) c) (take k ts))"
      "k < length ts \<longrightarrow> n - t_size t - idle_size c (take k ts) \<le> MaxBytes c"
      "\<forall>j < k. MaxBytes c < n - t_size t - idle_size c (take j ts)" unfolding b m i by blast
    have "\<forall>j < Suc k. MaxBytes c < n - idle_size c (take j (t # ts))"
      using k(4) 3 by (auto simp: less_Suc_eq_0_disj idle_size_def)
    then show ?thesis using k 3 rem by (intro exI [of _ "Suc k"]) (auto simp: idle_size_def)
  qed
qed


definition demo_key :: string where
  "demo_key = replicate 64 (CHR ''a'')"

definition demo_cache :: store where
  "demo_cache = \<lparr>Root = [], MaxBytes = 4, inUse = [],
     disk = \<lparr>tree = [([''repos''], Dir 448), ([''repos'', demo_key], Dir 448),
       ([''repos'', demo_key, ''big''], File 384 ''12345'' 3)], faults = [], wall = 9\<rparr>\<rparr>"

definition demo_template :: template where
  "demo_template = \<lparr>t_dir = [''repos'', demo_key], t_lastUsed = 0, t_size = 5\<rparr>"

lemma demo_templates: "fst (templates_of demo_lib [[''repos'', demo_key]] demo_cache) = [demo_template]"
  unfolding demo_key_def demo_cache_def demo_template_def by code_simp

lemma demo_names:
  "filter (\<lambda>name. is_dir (Root demo_cache @ [''repos'', name]) (files demo_cache) \<and> legacyKey name)
     (children (Root demo_cache @ [''repos'']) (files demo_cache)) = [demo_key]"
  unfolding demo_key_def demo_cache_def by code_simp


end
