(* ===== verification/Go_Net.thy ===== *)
theory Go_Net
  imports Go_Strings
begin

text \<open>
  The part of Go's \<open>net\<close> package the egress proxy uses: \<open>net.SplitHostPort\<close>,
  \<open>net.JoinHostPort\<close> and the success of \<open>net.ParseIP\<close>. The central lemma characterises the
  strings \<open>SplitHostPort\<close> accepts.
\<close>

section \<open>Index of a byte\<close>

fun IndexByte :: "string \<Rightarrow> char \<Rightarrow> nat option" where
  "IndexByte [] c = None"
| "IndexByte (x # s) c = (if x = c then Some 0 else map_option Suc (IndexByte s c))"

fun LastIndexByte :: "string \<Rightarrow> char \<Rightarrow> nat option" where
  "LastIndexByte [] c = None"
| "LastIndexByte (x # s) c =
     (case LastIndexByte s c of
        Some i \<Rightarrow> Some (Suc i)
      | None \<Rightarrow> if x = c then Some 0 else None)"

lemma IndexByte_None: "IndexByte s c = None \<longleftrightarrow> c \<notin> set s"
  by (induction s) auto

lemma IndexByte_append [simp]: "c \<notin> set a \<Longrightarrow> IndexByte (a @ c # b) c = Some (length a)"
  by (induction a) auto

lemma IndexByte_SomeD:
  "IndexByte s c = Some i \<Longrightarrow> \<exists>a b. s = a @ c # b \<and> c \<notin> set a \<and> length a = i"
proof (induction s arbitrary: i)
  case Nil
  then show ?case by simp
next
  case (Cons x s)
  show ?case
  proof (cases "x = c")
    case True
    with Cons.prems show ?thesis by (intro exI [of _ "[]"] exI [of _ s]) simp
  next
    case False
    with Cons.prems obtain j where "IndexByte s c = Some j" and i: "i = Suc j" by auto
    with Cons.IH obtain a b where "s = a @ c # b" "c \<notin> set a" "length a = j" by blast
    with False i show ?thesis by (intro exI [of _ "x # a"] exI [of _ b]) simp
  qed
qed

lemma LastIndexByte_None: "LastIndexByte s c = None \<longleftrightarrow> c \<notin> set s"
  by (induction s) (auto split: option.splits)

lemma LastIndexByte_append [simp]:
  "c \<notin> set b \<Longrightarrow> LastIndexByte (a @ c # b) c = Some (length a)"
  by (induction a) (auto simp: LastIndexByte_None [THEN iffD2])

lemma LastIndexByte_SomeD:
  "LastIndexByte s c = Some i \<Longrightarrow> \<exists>a b. s = a @ c # b \<and> c \<notin> set b \<and> length a = i"
proof (induction s arbitrary: i)
  case Nil
  then show ?case by simp
next
  case (Cons x s)
  show ?case
  proof (cases "LastIndexByte s c")
    case None
    with Cons.prems show ?thesis
      by (intro exI [of _ "[]"] exI [of _ s]) (auto simp: LastIndexByte_None split: if_splits)
  next
    case (Some j)
    with Cons.IH obtain a b where "s = a @ c # b" "c \<notin> set b" "length a = j" by blast
    with Some Cons.prems show ?thesis by (intro exI [of _ "x # a"] exI [of _ b]) simp
  qed
qed

section \<open>SplitHostPort and JoinHostPort\<close>

datatype addr_error = MissingPort | TooManyColons | MissingBracket | UnexpectedOpen | UnexpectedClose

abbreviation (input) "lbrk \<equiv> CHR ''[''"
abbreviation (input) "rbrk \<equiv> CHR '']''"
abbreviation (input) "colon \<equiv> CHR '':''"

text \<open>The checks after the host is known: \<open>j\<close> and \<open>k\<close> are where brackets stop being expected.\<close>

definition split_rest :: "string \<Rightarrow> nat \<Rightarrow> nat \<Rightarrow> nat \<Rightarrow> string \<Rightarrow> addr_error + string \<times> string" where
  "split_rest hostport i j k host =
     (if lbrk \<in> set (drop j hostport) then Inl UnexpectedOpen
      else if rbrk \<in> set (drop k hostport) then Inl UnexpectedClose
      else Inr (host, drop (i + 1) hostport))"

definition SplitHostPort :: "string \<Rightarrow> addr_error + string \<times> string" where
  "SplitHostPort hostport =
     (case LastIndexByte hostport colon of
        None \<Rightarrow> Inl MissingPort
      | Some i \<Rightarrow>
          if HasPrefix hostport ''['' then
            (case IndexByte hostport rbrk of
               None \<Rightarrow> Inl MissingBracket
             | Some e \<Rightarrow>
                 if e + 1 = length hostport then Inl MissingPort
                 else if e + 1 = i then
                   split_rest hostport i 1 (e + 1) (drop 1 (take e hostport))
                 else if hostport ! (e + 1) = colon then Inl TooManyColons
                 else Inl MissingPort)
          else
            let host = take i hostport
            in if colon \<in> set host then Inl TooManyColons
               else split_rest hostport i 0 0 host)"

definition JoinHostPort :: "string \<Rightarrow> string \<Rightarrow> string" where
  "JoinHostPort host port =
     (if colon \<in> set host then ''['' @ host @ '']:'' @ port else host @ '':'' @ port)"

definition brackets_free :: "string \<Rightarrow> bool" where
  "brackets_free s \<longleftrightarrow> lbrk \<notin> set s \<and> rbrk \<notin> set s"

text \<open>What \<open>SplitHostPort\<close> accepts: \<open>host:port\<close> with a colon-free host, or \<open>[host]:port\<close>.\<close>

lemma SplitHostPort_plain:
  assumes "brackets_free h" and "brackets_free p" and "colon \<notin> set h" and "colon \<notin> set p"
  shows "SplitHostPort (h @ colon # p) = Inr (h, p)"
proof -
  have "\<not> HasPrefix (h @ colon # p) ''[''"
    using assms by (cases h) (auto simp: brackets_free_def)
  then show ?thesis
    using assms by (simp add: SplitHostPort_def split_rest_def brackets_free_def)
qed

lemma SplitHostPort_bracketed:
  assumes "brackets_free h" and "brackets_free p" and "colon \<notin> set p"
  shows "SplitHostPort (''['' @ h @ '']:'' @ p) = Inr (h, p)"
proof -
  let ?hp = "''['' @ h @ '']:'' @ p"
  have i: "LastIndexByte ?hp colon = Some (length h + 2)"
    using LastIndexByte_append [of colon p "''['' @ h @ '']''"] assms by simp
  have e: "IndexByte ?hp rbrk = Some (length h + 1)"
    using IndexByte_append [of rbrk "''['' @ h" "colon # p"] assms by (simp add: brackets_free_def)
  show ?thesis
    unfolding SplitHostPort_def i e
    using assms by (simp add: split_rest_def brackets_free_def)
qed

lemma SplitHostPort_InrD:
  assumes "SplitHostPort s = Inr (h, p)"
  shows "brackets_free h \<and> brackets_free p \<and> colon \<notin> set p \<and>
    (s = h @ colon # p \<and> colon \<notin> set h \<or> s = ''['' @ h @ '']:'' @ p)"
proof -
  obtain i where i: "LastIndexByte s colon = Some i"
    using assms by (auto simp: SplitHostPort_def split: option.splits)
  then obtain a b where s: "s = a @ colon # b" and b: "colon \<notin> set b" and ai: "length a = i"
    using LastIndexByte_SomeD by blast
  show ?thesis
  proof (cases "HasPrefix s ''[''")
    case False
    with assms i s b ai show ?thesis
      by (auto simp: SplitHostPort_def split_rest_def brackets_free_def split: if_splits)
  next
    case True
    then obtain e where e: "IndexByte s rbrk = Some e"
      using assms i by (auto simp: SplitHostPort_def split: option.splits)
    then obtain a' b' where s': "s = a' @ rbrk # b'" and a': "rbrk \<notin> set a'" "length a' = e"
      using IndexByte_SomeD by blast
    have ei: "e + 1 = i" and h: "h = drop 1 (take e s)" and p: "p = drop (i + 1) s"
      and free: "lbrk \<notin> set (drop 1 s)" "rbrk \<notin> set (drop (e + 1) s)"
      using assms True by (auto simp: SplitHostPort_def i e split_rest_def split: if_splits)
    obtain a'' where a'': "a' = lbrk # a''"
      using True s' by (cases a') auto
    have b': "b' = colon # b"
    proof -
      have "a = a' @ [rbrk]" and "colon # b = b'"
        using s s' ai a'(2) ei append_eq_append_conv [of a "a' @ [rbrk]" "colon # b" b'] by auto
      then show ?thesis by simp
    qed
    have "h = a''" and "p = b"
      using h p s' a'' b' a'(2) ei by auto
    then show ?thesis
      using free s' a'' b' a' b by (auto simp: brackets_free_def)
  qed
qed

lemma SplitHostPort_Join:
  assumes "brackets_free h" and "brackets_free p" and "colon \<notin> set p"
  shows "SplitHostPort (JoinHostPort h p) = Inr (h, p)"
  using assms SplitHostPort_plain SplitHostPort_bracketed
  by (simp add: JoinHostPort_def)

lemma SplitHostPort_no_colon: "colon \<notin> set s \<Longrightarrow> SplitHostPort s = Inl MissingPort"
  by (simp add: SplitHostPort_def LastIndexByte_None [THEN iffD2])

section \<open>ParseIP\<close>

text \<open>
  \<open>net.ParseIP(s) != nil\<close> (through \<open>netip.ParseAddr\<close>): the first of dot, colon and percent
  decides between the IPv4 and the IPv6 form; an address with a zone is not an IP here.
\<close>

definition valid_octet :: "string \<Rightarrow> bool" where
  "valid_octet w \<longleftrightarrow>
     w \<noteq> [] \<and> list_all is_digit w \<and> (length w = 1 \<or> \<not> HasPrefix w ''0'') \<and>
     length w \<le> 3 \<and> foldl (\<lambda>a c. 10 * a + digit_val c) 0 w \<le> 255"

definition valid_ipv4 :: "string \<Rightarrow> bool" where
  "valid_ipv4 s \<longleftrightarrow> length (Split (CHR ''.'') s) = 4 \<and> list_all valid_octet (Split (CHR ''.'') s)"

definition is_hex :: "char \<Rightarrow> bool" where
  "is_hex c \<longleftrightarrow> is_digit c \<or> CHR ''a'' \<le> c \<and> c \<le> CHR ''f'' \<or> CHR ''A'' \<le> c \<and> c \<le> CHR ''F''"

text \<open>
  The loop of \<open>parseIPv6\<close>: \<open>i\<close> bytes are filled, \<open>ell\<close> tells whether \<open>::\<close> was seen; the fuel is
  the number of 16-bit groups left. Reading a group is taking the longest run of hex digits.
\<close>

fun ipv6_groups :: "nat \<Rightarrow> nat \<Rightarrow> bool \<Rightarrow> string \<Rightarrow> bool" where
  "ipv6_groups 0 i ell s = (s = [] \<and> \<not> ell)"
| "ipv6_groups (Suc n) i ell s =
     (let group = takeWhile is_hex s; rest = dropWhile is_hex s
      in if group = [] \<or> 4 < length group then False
         else if HasPrefix rest ''.'' then
           (ell \<or> i = 12) \<and> i + 4 \<le> 16 \<and> valid_ipv4 s \<and> (if i + 4 < 16 then ell else \<not> ell)
         else if rest = [] then (if i + 2 < 16 then ell else \<not> ell)
         else if \<not> HasPrefix rest '':'' \<or> length rest = 1 then False
         else
           let s' = tl rest
           in if HasPrefix s' '':'' then
                if ell then False
                else if tl s' = [] then i + 2 < 16
                else ipv6_groups n (i + 2) True (tl s')
              else ipv6_groups n (i + 2) ell s')"

definition valid_ipv6 :: "string \<Rightarrow> bool" where
  "valid_ipv6 s \<longleftrightarrow>
     CHR ''%'' \<notin> set s \<and>
     (if HasPrefix s ''::'' then length s = 2 \<or> ipv6_groups 8 0 True (drop 2 s)
      else ipv6_groups 8 0 False s)"

definition ParseIP_ok :: "string \<Rightarrow> bool" where
  "ParseIP_ok s =
     (case find (\<lambda>c. c \<in> set ''.:%'') s of
        None \<Rightarrow> False
      | Some c \<Rightarrow> if c = CHR ''.'' then valid_ipv4 s else if c = colon then valid_ipv6 s else False)"

lemma valid_octet_digits: "valid_octet w \<Longrightarrow> list_all is_digit w"
  by (simp add: valid_octet_def)

lemma valid_ipv4_chars: "valid_ipv4 s \<Longrightarrow> set s \<subseteq> {c. is_digit c \<or> c = CHR ''.''}"
proof -
  assume "valid_ipv4 s"
  then have w: "\<forall>w \<in> set (Split (CHR ''.'') s). set w \<subseteq> {c. is_digit c}"
    by (auto simp: valid_ipv4_def list_all_iff dest!: valid_octet_digits)
  have "set (Join ''.'' ws) \<subseteq> {CHR ''.''} \<union> (\<Union>w \<in> set ws. set w)" for ws
    by (induction "''.''" ws rule: Join.induct) auto
  from this [of "Split (CHR ''.'') s"] w show ?thesis by auto
qed

end
