(* ===== verification/Allowlist.thy ===== *)
theory Allowlist
  imports Go_Net
begin

text \<open>
  The allowlist of \<open>internal/egress/proxy.go\<close>: its grammar (\<open>ParseAllowlist\<close>, \<open>ValidateEntry\<close>,
  \<open>ValidateAllowlist\<close>), the decision \<open>Permits\<close>, the built-in list, and the remedy named in a
  denial (\<open>SuggestEntry\<close>, \<open>Remedy\<close>). An entry is a string, an allowlist a list of entries, as in
  the code. The specification below reads an entry as one of three rules.

  The argument \<open>u\<close> is Unicode's lower-casing of a non-ASCII string (see \<open>Go_Strings\<close>).
\<close>

section \<open>The code\<close>

type_synonym allowlist = "string list"

definition ParseAllowlist :: "(string \<Rightarrow> string) \<Rightarrow> string \<Rightarrow> allowlist" where
  "ParseAllowlist u raw =
     filter (\<lambda>entry. entry \<noteq> [])
       (map (\<lambda>entry. ToLower u (TrimSpace entry))
          (FieldsFunc (\<lambda>r. r = CHR '','' \<or> r = CHR '' '' \<or> r = CHR 0x0A) raw))"

definition DefaultAllowlist :: allowlist where
  "DefaultAllowlist =
     [''.npmjs.org'', ''registry.yarnpkg.com'', ''.nodejs.org'',
      ''pypi.org'', ''files.pythonhosted.org'', ''proxy.golang.org'',
      ''sum.golang.org'', ''index.crates.io'', ''static.crates.io'',
      ''static.rust-lang.org'', ''sh.rustup.rs'', ''.rubygems.org'',
      ''repo.maven.apache.org'', ''repo1.maven.org'', ''plugins.gradle.org'',
      ''plugins-artifacts.gradle.org'', ''services.gradle.org'', ''downloads.gradle.org'',
      ''api.adoptium.net'', ''dl.google.com'', ''maven.google.com'',
      ''repo.packagist.org'', ''api.nuget.org'', ''builds.dotnet.microsoft.com'',
      ''repo.hex.pm'', ''builds.hex.pm'', ''pub.dev'',
      ''hackage.haskell.org'', ''downloads.haskell.org'', ''deb.debian.org'',
      ''security.debian.org'', ''archive.ubuntu.com'', ''security.ubuntu.com'',
      ''ports.ubuntu.com'', ''.alpinelinux.org'', ''.github.com'',
      ''codeload.github.com'', ''release-assets.githubusercontent.com'', ''objects.githubusercontent.com'',
      ''raw.githubusercontent.com'', ''.gitlab.com'', ''.bitbucket.org'',
      ''codeberg.org'', ''registry-1.docker.io'', ''index.docker.io'',
      ''auth.docker.io'', ''production.cloudfront.docker.com'', ''ghcr.io'',
      ''pkg-containers.githubusercontent.com'', ''quay.io'', ''cdn01.quay.io'',
      ''.mcr.microsoft.com'']"

text \<open>The host and port of an entry: the port is empty when the entry names none.\<close>

definition entry_parts :: "string \<Rightarrow> string \<times> string" where
  "entry_parts entry = (case SplitHostPort entry of Inr hp \<Rightarrow> hp | Inl _ \<Rightarrow> (entry, []))"

text \<open>The loop of \<open>Permits\<close>, one equation per entry, in the order of its tests.\<close>

fun permits_loop :: "string \<Rightarrow> string \<Rightarrow> allowlist \<Rightarrow> bool" where
  "permits_loop host port [] = False"
| "permits_loop host port (entry # rest) =
     (let (entryHost, entryPort) = entry_parts entry
      in if entryPort \<noteq> [] then
           (if entryPort = port \<and> host = entryHost then True else permits_loop host port rest)
         else if port \<noteq> ''80'' \<and> port \<noteq> ''443'' then permits_loop host port rest
         else if HasPrefix entryHost ''.'' then
           (let bare = TrimPrefix entryHost ''.''
            in if host = bare \<or> HasSuffix host entryHost then True
               else permits_loop host port rest)
         else if host = entryHost then True
         else permits_loop host port rest)"

definition request_target :: "(string \<Rightarrow> string) \<Rightarrow> string \<Rightarrow> string \<times> string" where
  "request_target u hostport =
     (let (host, port) = (case SplitHostPort hostport of
                            Inl _ \<Rightarrow> (hostport, ''443'')
                          | Inr hp \<Rightarrow> hp)
      in (ToLower u (TrimSuffix host ''.''), port))"

definition Permits :: "(string \<Rightarrow> string) \<Rightarrow> allowlist \<Rightarrow> string \<Rightarrow> bool" where
  "Permits u a hostport =
     (let (host, port) = request_target u hostport in permits_loop host port a)"

datatype entry_error =
    EmptyEntry | NotBareHost | Wildcard | BadCharacter | NotHostPort | BadPort | NoHost
  | WholeTLD | BadLabel string

definition label_char :: "char \<Rightarrow> bool" where
  "label_char r \<longleftrightarrow>
     CHR ''a'' \<le> r \<and> r \<le> CHR ''z'' \<or> CHR ''0'' \<le> r \<and> r \<le> CHR ''9'' \<or> r = CHR ''-'' \<or> r = CHR ''_''"

definition bad_label :: "string \<Rightarrow> bool" where
  "bad_label label \<longleftrightarrow>
     label = [] \<or> length label > 63 \<or> HasPrefix label ''-'' \<or> HasSuffix label ''-'' \<or>
     \<not> list_all label_char label"

definition split_entry :: "string \<Rightarrow> entry_error + string \<times> string" where
  "split_entry entry =
     (case SplitHostPort entry of
        Inr hp \<Rightarrow> Inr hp
      | Inl _ \<Rightarrow> if Contains entry '':'' then Inl NotHostPort else Inr (entry, []))"

definition bad_port :: "string \<Rightarrow> bool" where
  "bad_port port = (case Atoi port of None \<Rightarrow> True | Some number \<Rightarrow> number < 1 \<or> number > 65535)"

definition check_host :: "string \<Rightarrow> string \<Rightarrow> entry_error + string" where
  "check_host entry host =
     (let suffix = HasPrefix host ''.''; bare = TrimPrefix host ''.''
      in if bare = [] then Inl NoHost
         else if \<not> suffix \<and> ParseIP_ok bare then Inr entry
         else
           let labels = Split (CHR ''.'') bare
           in if suffix \<and> length labels < 2 then Inl WholeTLD
              else case find bad_label labels of
                     Some label \<Rightarrow> Inl (BadLabel label)
                   | None \<Rightarrow> Inr entry)"

definition ValidateEntry :: "(string \<Rightarrow> string) \<Rightarrow> string \<Rightarrow> entry_error + string" where
  "ValidateEntry u raw =
     (let entry = ToLower u (TrimSpace raw)
      in if entry = [] then Inl EmptyEntry
         else if Contains entry ''://'' \<or> Contains entry ''/'' then Inl NotBareHost
         else if Contains entry ''*'' then Inl Wildcard
         else if ContainsAny entry (CHR '' '' # CHR 0x09 # CHR 0x0A # '',@?#'') then Inl BadCharacter
         else
           case split_entry entry of
             Inl e \<Rightarrow> Inl e
           | Inr (host, port) \<Rightarrow>
               if port \<noteq> [] \<and> bad_port port then Inl BadPort else check_host entry host)"

fun ValidateAllowlist :: "(string \<Rightarrow> string) \<Rightarrow> string list \<Rightarrow> entry_error + allowlist" where
  "ValidateAllowlist u [] = Inr []"
| "ValidateAllowlist u (raw # entries) =
     (case ValidateEntry u raw of
        Inl e \<Rightarrow> Inl e
      | Inr entry \<Rightarrow>
          (case ValidateAllowlist u entries of
             Inl e \<Rightarrow> Inl e
           | Inr list \<Rightarrow> Inr (entry # list)))"

definition SuggestEntry :: "(string \<Rightarrow> string) \<Rightarrow> string \<Rightarrow> string" where
  "SuggestEntry u hostport =
     (case SplitHostPort hostport of
        Inl _ \<Rightarrow> ToLower u (TrimSuffix hostport ''.'')
      | Inr (host, port) \<Rightarrow>
          let host = ToLower u (TrimSuffix host ''.'')
          in if port = ''80'' \<or> port = ''443'' then host else JoinHostPort host port)"

definition dquote :: string where
  "dquote = [CHR 0x22]"

definition Remedy :: "(string \<Rightarrow> string) \<Rightarrow> string \<Rightarrow> string" where
  "Remedy u hostport =
     (let entry = SuggestEntry u hostport
      in ''to allow it, either pass '' @ dquote @ ''egressAllow'' @ dquote @ '': ['' @ dquote @ entry @ dquote
         @ ''] in the POST /v1/runs body (that run only), ''
         @ ''or add it deployment-wide with SBX_EGRESS_ALLOW='' @ dquote @ entry @ dquote
         @ '' (comma-separated, appended to the built-in list) and restart teploy-sandbox. ''
         @ ''A run created with '' @ dquote @ ''network'' @ dquote @ '': '' @ dquote @ ''open'' @ dquote
         @ '' bypasses this proxy entirely.'')"

end
