(* ===== verification/Allowlist_Correct.thy ===== *)
theory Allowlist_Correct
  imports Allowlist
begin

text \<open>
  Correctness of the allowlist. An entry denotes one of three rules; \<open>Permits\<close> is shown to be
  the disjunction of the rules of its entries. The grammar \<open>ValidateEntry\<close> accepts is shown to be
  canonical (idempotent, and stable under the comma-joined form \<open>OpenFor\<close> passes on), and the
  remedy of a denial to be an entry that admits the denied target.
\<close>

section \<open>Specification: what an entry admits\<close>

datatype rule =
    ExactHost string        \<comment> \<open>a host, on the default ports\<close>
  | HostAndSubdomains string \<comment> \<open>a domain and everything below it, on the default ports\<close>
  | HostPort string string  \<comment> \<open>a host on exactly one port\<close>

definition rule_of :: "string \<Rightarrow> rule" where
  "rule_of entry =
     (let (h, p) = entry_parts entry
      in if p \<noteq> [] then HostPort h p
         else if HasPrefix h ''.'' then HostAndSubdomains (tl h)
         else ExactHost h)"

fun rule_admits :: "rule \<Rightarrow> string \<Rightarrow> string \<Rightarrow> bool" where
  "rule_admits (ExactHost h) host port = (port \<in> {''80'', ''443''} \<and> host = h)"
| "rule_admits (HostAndSubdomains d) host port =
     (port \<in> {''80'', ''443''} \<and> (host = d \<or> (\<exists>sub. host = sub @ ''.'' @ d)))"
| "rule_admits (HostPort h p) host port = (port = p \<and> host = h)"

lemma permits_loop_iff:
  "permits_loop host port a \<longleftrightarrow> (\<exists>entry \<in> set a. rule_admits (rule_of entry) host port)"
proof (induction a)
  case Nil
  show ?case by simp
next
  case (Cons entry rest)
  obtain h p where hp: "entry_parts entry = (h, p)" by (cases "entry_parts entry")
  have "permits_loop host port (entry # rest) \<longleftrightarrow>
      rule_admits (rule_of entry) host port \<or> permits_loop host port rest"
  proof (cases "p = [] \<and> HasPrefix h ''.''")
    case True
    then obtain d where "h = CHR ''.'' # d" by (cases h) auto
    with True show ?thesis by (auto simp: hp rule_of_def HasSuffix_iff)
  next
    case False
    then show ?thesis by (auto simp: hp rule_of_def)
  qed
  with Cons show ?case by auto
qed

lemma Permits_append: "Permits u (a @ b) hp \<longleftrightarrow> Permits u a hp \<or> Permits u b hp"
  by (auto simp: Permits_def permits_loop_iff split: prod.splits)

text \<open>C10: \<open>Permits\<close> is the disjunction of its entries: a target is dialled exactly when some
  entry's rule admits its normalised host and its port (443 when it names none).\<close>

theorem Permits_refines_rules:
  "Permits u a hostport \<longleftrightarrow>
     (\<exists>entry \<in> set a. rule_admits (rule_of entry)
        (fst (request_target u hostport)) (snd (request_target u hostport)))"
  by (simp add: Permits_def permits_loop_iff split: prod.splits)

lemma Permits_ports:
  assumes "\<forall>entry \<in> set a. snd (entry_parts entry) = []"
    and "Permits u a hostport"
  shows "snd (request_target u hostport) \<in> {''80'', ''443''}"
proof -
  obtain entry where e: "entry \<in> set a" and
    adm: "rule_admits (rule_of entry) (fst (request_target u hostport)) (snd (request_target u hostport))"
    using assms(2) by (auto simp: Permits_def permits_loop_iff split: prod.splits)
  have "snd (entry_parts entry) = []" using assms(1) e by blast
  then obtain h where "entry_parts entry = (h, [])" by (cases "entry_parts entry") auto
  with adm show ?thesis by (auto simp: rule_of_def split: if_splits)
qed

text \<open>C2: default deny on ports: when no entry names a port, only ports 80 and 443 are ever
  dialled, whatever the target says.\<close>

theorem Permits_default_ports:
  assumes "\<forall>entry \<in> set a. snd (entry_parts entry) = []"
    and "Permits u a hostport"
  shows "snd (request_target u hostport) \<in> {''80'', ''443''}"
  using assms by (rule Permits_ports)

theorem Permits_default_ports_witness:
  "snd (request_target id ''GitHub.com:443'') \<in> {''80'', ''443''}"
  by (rule Permits_default_ports [where a = "[''.github.com'']"]) code_simp+

section \<open>The grammar\<close>

definition entry_char :: "char \<Rightarrow> bool" where
  "entry_char c \<longleftrightarrow> 32 < (of_char c :: nat) \<and> of_char c < (128 :: nat) \<and>
     \<not> (CHR ''A'' \<le> c \<and> c \<le> CHR ''Z'')"

lemma entry_chars_id:
  assumes "list_all entry_char e"
  shows "TrimSpace e = e" and "ToLower u e = e"
proof -
  have "visible e" and "no_upper e"
    using assms by (auto simp: entry_char_def visible_def no_upper_def list_all_iff)
  then show "TrimSpace e = e" and "ToLower u e = e" by (simp_all add: visible_ascii)
qed

lemma label_char_entry_char: "label_char c \<Longrightarrow> entry_char c"
  by (auto simp: label_char_def entry_char_def of_char_mono)

lemma digit_entry_char: "is_digit c \<Longrightarrow> entry_char c"
  by (auto simp: is_digit_iff entry_char_def of_char_mono)

lemma hex_visible: "is_hex c \<Longrightarrow> 32 < (of_char c :: nat) \<and> of_char c < (128 :: nat)"
  by (auto simp: is_hex_def is_digit_iff of_char_mono)

definition ip_char :: "char \<Rightarrow> bool" where
  "ip_char c \<longleftrightarrow> is_hex c \<or> c = CHR '':'' \<or> c = CHR ''.''"

lemma valid_ipv4_ip_char: "valid_ipv4 s \<Longrightarrow> list_all ip_char s"
  using valid_ipv4_chars by (fastforce simp: list_all_iff ip_char_def is_hex_def)

lemma ip_char_after_group:
  assumes "list_all ip_char (dropWhile is_hex s)"
  shows "list_all ip_char s"
proof -
  have "list_all ip_char (takeWhile is_hex s)"
    by (auto simp: list_all_iff ip_char_def dest: set_takeWhileD)
  with assms have "list_all ip_char (takeWhile is_hex s @ dropWhile is_hex s)"
    by (simp del: takeWhile_dropWhile_id)
  then show ?thesis by simp
qed

lemma ipv6_groups_chars: "ipv6_groups n i ell s \<Longrightarrow> list_all ip_char s"
proof (induction n i ell s rule: ipv6_groups.induct)
  case (1 i ell s)
  then show ?case by simp
next
  case (2 n i ell s)
  show ?case
  proof (cases "dropWhile is_hex s")
    case Nil
    then show ?thesis using ip_char_after_group [of s] by (simp only: list.pred_inject)
  next
    case (Cons x r)
    show ?thesis
    proof (cases "x = CHR ''.''")
      case True
      with 2(3) Cons have "valid_ipv4 s" by (auto simp: Let_def split: if_splits)
      then show ?thesis by (rule valid_ipv4_ip_char)
    next
      case False
      with 2(3) Cons have x: "x = CHR '':''" and "r \<noteq> []" and grp: "takeWhile is_hex s \<noteq> []"
        "\<not> 4 < length (takeWhile is_hex s)"
        by (auto simp: Let_def split: if_splits)
      then obtain y r' where r: "r = y # r'" by (cases r) auto
      have "list_all ip_char r"
      proof (cases "y = CHR '':''")
        case True
        with 2(3) Cons x r grp have "\<not> ell" and "r' = [] \<or> ipv6_groups n (Suc (Suc i)) True r'"
          by (auto simp: Let_def split: if_splits)
        moreover have "r' \<noteq> [] \<Longrightarrow> ipv6_groups n (Suc (Suc i)) True r' \<Longrightarrow> list_all ip_char r'"
          using 2(1) [OF refl refl] Cons x r grp True \<open>\<not> ell\<close> by auto
        ultimately have "list_all ip_char r'" by (cases "r' = []") auto
        with r True show ?thesis by (simp add: ip_char_def)
      next
        case False
        with 2(3) Cons x r grp have "ipv6_groups n (i + 2) ell r"
          by (auto simp: Let_def split: if_splits)
        with 2(2) [OF refl refl] Cons x r grp False show ?thesis by auto
      qed
      with Cons x have "list_all ip_char (dropWhile is_hex s)" by (simp add: ip_char_def)
      then show ?thesis by (rule ip_char_after_group)
    qed
  qed
qed

lemma ParseIP_visible:
  assumes ok: "ParseIP_ok s"
  shows "visible s"
proof -
  have "list_all ip_char s"
  proof (cases "valid_ipv4 s")
    case True
    then show ?thesis by (rule valid_ipv4_ip_char)
  next
    case False
    with ok have v6: "valid_ipv6 s"
      by (auto simp: ParseIP_ok_def split: option.splits if_splits)
    show ?thesis
    proof (cases "HasPrefix s ''::''")
      case True
      then obtain t where t: "s = ''::'' @ t" by (auto simp: HasPrefix_iff)
      with v6 True have "t = [] \<or> ipv6_groups 8 0 True t" by (auto simp: valid_ipv6_def)
      with t show ?thesis using ipv6_groups_chars by (auto simp: ip_char_def)
    next
      case False
      with v6 have "ipv6_groups 8 0 False s" by (simp add: valid_ipv6_def)
      then show ?thesis by (rule ipv6_groups_chars)
    qed
  qed
  then show ?thesis
    using hex_visible by (auto simp: visible_def list_all_iff ip_char_def)
qed

lemma parse_digits_visible: "parse_digits s = Some n \<Longrightarrow> visible s"
  by (auto simp: parse_digits_def visible_def is_digit_iff list_all_iff split: if_splits)

lemma Atoi_visible:
  assumes "Atoi s = Some n"
  shows "visible s"
proof (cases s)
  case Nil
  then show ?thesis by (simp add: visible_def)
next
  case (Cons c r)
  have "parse_digits (if c = CHR ''-'' \<or> c = CHR ''+'' then r else s) \<noteq> None"
    using assms by (auto simp: Atoi_def Cons Let_def split: option.splits if_splits)
  then have "visible (if c = CHR ''-'' \<or> c = CHR ''+'' then r else s)"
    using parse_digits_visible by blast
  then show ?thesis by (auto simp: Cons visible_def split: if_splits)
qed

lemma label_visible: "\<not> bad_label w \<Longrightarrow> list_all label_char w"
  by (simp add: bad_label_def)

lemma Join_chars: "c \<in> set (Join sep ws) \<Longrightarrow> c \<in> set sep \<or> (\<exists>w \<in> set ws. c \<in> set w)"
  by (induction sep ws rule: Join.induct) auto

lemma check_host_InrD:
  assumes "check_host e h = Inr e'"
  shows "e' = e \<and> visible h"
proof -
  let ?bare = "TrimPrefix h ''.''" and ?dot = "CHR ''.''"
  have "e' = e"
    using assms by (auto simp: check_host_def Let_def split: if_splits option.splits)
  moreover have "visible h"
  proof (cases "\<not> HasPrefix h ''.'' \<and> ParseIP_ok ?bare")
    case True
    then show ?thesis using ParseIP_visible by (auto simp: TrimPrefix_def)
  next
    case False
    then have "find bad_label (Split ?dot ?bare) = None"
      using assms by (auto simp: check_host_def Let_def split: if_splits option.splits)
    then have "\<forall>w \<in> set (Split ?dot ?bare). list_all label_char w"
      by (auto simp: find_None_iff dest!: label_visible)
    then have "c \<in> set ?bare \<Longrightarrow> label_char c \<or> c = ?dot" for c
      using Join_chars [of c "''.''" "Split ?dot ?bare"] by (auto simp: list_all_iff)
    moreover have "set h \<subseteq> insert ?dot (set ?bare)"
      by (auto simp: TrimPrefix_def HasPrefix_iff)
    ultimately show ?thesis
      using label_char_entry_char by (fastforce simp: visible_def list_all_iff entry_char_def)
  qed
  ultimately show ?thesis by simp
qed

text \<open>What \<open>unicode.ToLower\<close> guarantees of its output, of which only this much is used.\<close>

definition lowers :: "(string \<Rightarrow> string) \<Rightarrow> bool" where
  "lowers u \<longleftrightarrow> (\<forall>s. no_upper (u s))"

lemma ToLower_no_upper: "lowers u \<Longrightarrow> no_upper (ToLower u s)"
  by (simp add: ToLower_def lowers_def)

lemma ValidateEntry_InrD:
  assumes "ValidateEntry u raw = Inr e"
  shows "e = ToLower u (TrimSpace raw)" and "visible e" and "CHR '','' \<notin> set e" and "e \<noteq> []"
proof -
  show e: "e = ToLower u (TrimSpace raw)"
    using assms
    by (auto simp: ValidateEntry_def Let_def split: if_splits sum.splits prod.splits dest: check_host_InrD)
  show "CHR '','' \<notin> set e" and "e \<noteq> []"
    using assms unfolding e
    by (auto simp: ValidateEntry_def Let_def ContainsAny_iff split: if_splits)
  obtain host port where sp: "split_entry e = Inr (host, port)"
    and port: "port = [] \<or> \<not> bad_port port" and host: "check_host e host = Inr e"
    using assms unfolding e
    by (auto simp: ValidateEntry_def Let_def split: if_splits sum.splits prod.splits)
  have vh: "visible host" using host check_host_InrD by blast
  have vp: "visible port"
    using port Atoi_visible by (auto simp: bad_port_def visible_def split: option.splits)
  show "visible e"
  proof (cases "SplitHostPort e")
    case (Inl x)
    with sp have "host = e" by (auto simp: split_entry_def split: if_splits)
    with vh show ?thesis by simp
  next
    case (Inr hp)
    with sp have "SplitHostPort e = Inr (host, port)" by (simp add: split_entry_def)
    from SplitHostPort_InrD [OF this] vh vp show ?thesis by (auto simp: visible_def)
  qed
qed

lemma ValidateEntry_entry_char:
  assumes "lowers u" and "ValidateEntry u raw = Inr e"
  shows "list_all entry_char e"
proof -
  have "no_upper e"
    using assms ValidateEntry_InrD(1) ToLower_no_upper by metis
  with ValidateEntry_InrD(2) [OF assms(2)] show ?thesis
    by (auto simp: entry_char_def visible_def no_upper_def list_all_iff)
qed

lemma ValidateEntry_idem:
  assumes "lowers u" and "ValidateEntry u raw = Inr e"
  shows "ValidateEntry u e = Inr e"
proof -
  have "ToLower u (TrimSpace e) = e"
    using entry_chars_id ValidateEntry_entry_char [OF assms] by simp
  then show ?thesis
    using assms(2) ValidateEntry_InrD(1) [OF assms(2)] unfolding ValidateEntry_def by metis
qed

lemma ValidateAllowlist_set:
  "ValidateAllowlist u raws = Inr l \<Longrightarrow> e \<in> set l \<Longrightarrow> \<exists>raw \<in> set raws. ValidateEntry u raw = Inr e"
  by (induction raws arbitrary: l) (auto split: sum.splits)

lemma ValidateAllowlist_map:
  "ValidateAllowlist u raws = Inr l \<longleftrightarrow> map (ValidateEntry u) raws = map Inr l"
proof (induction raws arbitrary: l)
  case Nil
  then show ?case by auto
next
  case (Cons raw raws)
  then show ?case
    by (cases l) (auto split: sum.splits, metis)
qed

text \<open>C32: the grammar is canonical: validating an accepted list again, in any deployment, gives the
  same list, so the entries a run is created with are exactly the ones reported and logged.\<close>

theorem ValidateAllowlist_canonical:
  assumes "lowers u" and "ValidateAllowlist u raws = Inr l"
  shows "ValidateAllowlist u l = Inr l"
proof -
  have "\<forall>e \<in> set l. ValidateEntry u e = Inr e"
    using assms ValidateAllowlist_set ValidateEntry_idem by metis
  then show ?thesis by (auto simp: ValidateAllowlist_map)
qed

theorem ValidateAllowlist_canonical_witness:
  "ValidateAllowlist (map lower_char) [''.example.com'', ''forge.example.com:49152''] =
     Inr [''.example.com'', ''forge.example.com:49152'']"
proof (rule ValidateAllowlist_canonical)
  show "lowers (map lower_char)" by (simp add: lowers_def)
  show "ValidateAllowlist (map lower_char) ['' .Example.com'', ''Forge.example.com:49152''] =
     Inr [''.example.com'', ''forge.example.com:49152'']"
    by code_simp
qed

text \<open>The comma-joined form of a validated list parses back to the list (\<open>Pool.OpenFor\<close>).\<close>

lemma ParseAllowlist_Join:
  assumes "lowers u" and "\<forall>e \<in> set l. ValidateEntry u e = Inr e"
  shows "ParseAllowlist u (Join '','' l) = l"
proof -
  have ok: "list_all entry_char e \<and> CHR '','' \<notin> set e \<and> e \<noteq> []" if "e \<in> set l" for e
    using assms that ValidateEntry_entry_char ValidateEntry_InrD by metis
  let ?f = "\<lambda>r. r = CHR '','' \<or> r = CHR '' '' \<or> r = CHR 0x0A"
  have "\<forall>e \<in> set l. e \<noteq> [] \<and> (\<forall>x \<in> set e. \<not> ?f x)"
    using ok by (fastforce simp: list_all_iff entry_char_def)
  then have "FieldsFunc ?f (Join '','' l) = l"
    by (intro FieldsFunc_Join) auto
  moreover have "map (\<lambda>e. ToLower u (TrimSpace e)) l = l"
    using ok entry_chars_id by (intro map_idI) auto
  moreover have "filter (\<lambda>e. e \<noteq> []) l = l"
    using ok by (intro filter_True) auto
  ultimately show ?thesis by (simp add: ParseAllowlist_def)
qed

section \<open>The built-in list\<close>

lemma label_char_not_sep: "label_char c \<or> c = CHR ''.'' \<Longrightarrow> c \<notin> set ('':/*,@?#[] '' @ [CHR 0x09, CHR 0x0A])"
  by (auto simp: label_char_def of_char_mono)

text \<open>An entry without a port whose characters are those of a hostname meets only the host check.\<close>

lemma ValidateEntry_hostname:
  assumes chars: "list_all (\<lambda>c. label_char c \<or> c = CHR ''.'') e" and ne: "e \<noteq> []"
  shows "ValidateEntry u e = check_host e e"
proof -
  have lc: "label_char c \<or> c = CHR ''.''" if "c \<in> set e" for c
    using chars that by (auto simp: list_all_iff)
  have "entry_char (CHR ''.'')" by (simp add: entry_char_def less_eq_char_def)
  then have "list_all entry_char e"
    using lc label_char_entry_char by (metis list_all_iff)
  then have n: "ToLower u (TrimSpace e) = e" by (simp add: entry_chars_id)
  have sep: "c \<notin> set e" if "c \<in> set ('':/*,@?#[] '' @ [CHR 0x09, CHR 0x0A])" for c
    using that lc label_char_not_sep by metis
  have "\<not> Contains e ''://''"
    using sep [of "CHR ''/''"] by (auto dest!: Contains_set)
  moreover have "\<not> ContainsAny e (CHR '' '' # CHR 0x09 # CHR 0x0A # '',@?#'')"
    using sep by (auto simp: ContainsAny_iff)
  moreover have "split_entry e = Inr (e, [])"
    using sep [of "CHR '':''"] by (simp add: split_entry_def Contains_single SplitHostPort_no_colon)
  ultimately show ?thesis
    using ne sep [of "CHR ''/''"] sep [of "CHR ''*''"]
    by (simp add: ValidateEntry_def n Contains_single)
qed

lemma DefaultAllowlist_valid: "ValidateAllowlist u DefaultAllowlist = Inr DefaultAllowlist"
proof -
  have "list_all (\<lambda>e. list_all (\<lambda>c. label_char c \<or> c = CHR ''.'') e \<and> e \<noteq> []) DefaultAllowlist"
    by code_simp
  moreover have "list_all (\<lambda>e. check_host e e = Inr e) DefaultAllowlist"
    by code_simp
  ultimately show ?thesis
    by (simp add: ValidateAllowlist_map list_all_iff ValidateEntry_hostname)
qed

lemma DefaultAllowlist_rules:
  "map rule_of DefaultAllowlist =
     [HostAndSubdomains ''npmjs.org'', ExactHost ''registry.yarnpkg.com'',
      HostAndSubdomains ''nodejs.org'', ExactHost ''pypi.org'',
      ExactHost ''files.pythonhosted.org'', ExactHost ''proxy.golang.org'',
      ExactHost ''sum.golang.org'', ExactHost ''index.crates.io'',
      ExactHost ''static.crates.io'', ExactHost ''static.rust-lang.org'',
      ExactHost ''sh.rustup.rs'', HostAndSubdomains ''rubygems.org'',
      ExactHost ''repo.maven.apache.org'', ExactHost ''repo1.maven.org'',
      ExactHost ''plugins.gradle.org'', ExactHost ''plugins-artifacts.gradle.org'',
      ExactHost ''services.gradle.org'', ExactHost ''downloads.gradle.org'',
      ExactHost ''api.adoptium.net'', ExactHost ''dl.google.com'',
      ExactHost ''maven.google.com'', ExactHost ''repo.packagist.org'',
      ExactHost ''api.nuget.org'', ExactHost ''builds.dotnet.microsoft.com'',
      ExactHost ''repo.hex.pm'', ExactHost ''builds.hex.pm'',
      ExactHost ''pub.dev'', ExactHost ''hackage.haskell.org'',
      ExactHost ''downloads.haskell.org'', ExactHost ''deb.debian.org'',
      ExactHost ''security.debian.org'', ExactHost ''archive.ubuntu.com'',
      ExactHost ''security.ubuntu.com'', ExactHost ''ports.ubuntu.com'',
      HostAndSubdomains ''alpinelinux.org'', HostAndSubdomains ''github.com'',
      ExactHost ''codeload.github.com'', ExactHost ''release-assets.githubusercontent.com'',
      ExactHost ''objects.githubusercontent.com'', ExactHost ''raw.githubusercontent.com'',
      HostAndSubdomains ''gitlab.com'', HostAndSubdomains ''bitbucket.org'',
      ExactHost ''codeberg.org'', ExactHost ''registry-1.docker.io'',
      ExactHost ''index.docker.io'', ExactHost ''auth.docker.io'',
      ExactHost ''production.cloudfront.docker.com'', ExactHost ''ghcr.io'',
      ExactHost ''pkg-containers.githubusercontent.com'', ExactHost ''quay.io'',
      ExactHost ''cdn01.quay.io'', HostAndSubdomains ''mcr.microsoft.com'']"
  by code_simp

lemma rule_admits_subdomains:
  "rule_admits (HostAndSubdomains d) host port \<longleftrightarrow>
     (port = ''80'' \<or> port = ''443'') \<and> (host = d \<or> HasSuffix host (CHR ''.'' # d))"
  by (auto simp: HasSuffix_iff)

lemma Permits_rules:
  assumes "request_target u hostport = (host, port)"
  shows "Permits u a hostport \<longleftrightarrow> list_ex (\<lambda>r. rule_admits r host port) (map rule_of a)"
  using assms by (simp add: Permits_def permits_loop_iff list_ex_iff)

lemma default_refusals:
  "list_all (\<lambda>h. \<not> list_ex (\<lambda>r. rule_admits r h ''443'') (map rule_of DefaultAllowlist))
     [''crates.io'', ''hex.pm'', ''www.nuget.org'', ''packagist.org'', ''storage.googleapis.com'',
      ''registry.k8s.io'', ''aka.ms'', ''bucket.s3.amazonaws.com'', ''evilgithub.com'']"
  unfolding DefaultAllowlist_rules
  by (simp add: rule_admits_subdomains HasSuffix_def del: rule_admits.simps(2))

lemma default_grants:
  "list_all (\<lambda>h. list_ex (\<lambda>r. rule_admits r h ''443'') (map rule_of DefaultAllowlist))
     [''github.com'', ''api.github.com'', ''registry.npmjs.org'', ''static.crates.io'']"
  unfolding DefaultAllowlist_rules
  by (simp add: rule_admits_subdomains HasSuffix_def del: rule_admits.simps(2))

lemma default_no_port: "\<forall>e \<in> set DefaultAllowlist. snd (entry_parts e) = []"
proof -
  have "list_all (\<lambda>r. \<forall>h p. r \<noteq> HostPort h p) (map rule_of DefaultAllowlist)"
    unfolding DefaultAllowlist_rules by simp
  then have r: "rule_of e \<noteq> HostPort h p" if "e \<in> set DefaultAllowlist" for e h p
    using that by (simp add: list_all_iff)
  have "snd (entry_parts e) = []" if "e \<in> set DefaultAllowlist" for e
    using r [OF that, of "fst (entry_parts e)" "snd (entry_parts e)"]
    by (simp add: rule_of_def split: prod.splits if_splits)
  then show ?thesis by blast
qed

lemma default_targets:
  "list_all (\<lambda>h. request_target u (h @ '':443'') = (h, ''443''))
     ([''crates.io'', ''hex.pm'', ''www.nuget.org'', ''packagist.org'', ''storage.googleapis.com'',
      ''registry.k8s.io'', ''aka.ms'', ''bucket.s3.amazonaws.com'', ''evilgithub.com''] @
      [''github.com'', ''api.github.com'', ''registry.npmjs.org'', ''static.crates.io''])"
  by code_simp


section \<open>The remedy of a denial\<close>

lemma good_labels_chars:
  assumes "\<forall>w \<in> set (Split (CHR ''.'') h). \<not> bad_label w" and "c \<in> set h"
  shows "label_char c \<or> c = CHR ''.''"
proof -
  have "\<forall>w \<in> set (Split (CHR ''.'') h). list_all label_char w"
    using assms(1) label_visible by blast
  then show ?thesis
    using Join_chars [of c "''.''" "Split (CHR ''.'') h"] assms(2) by (auto simp: list_all_iff)
qed

lemma good_labels_check_host:
  assumes "\<forall>w \<in> set (Split (CHR ''.'') h). \<not> bad_label w"
  shows "check_host e h = Inr e \<and> \<not> HasPrefix h ''.'' \<and> h \<noteq> []"
proof -
  have "h \<noteq> []" using assms by (auto simp: bad_label_def)
  moreover have "\<not> HasPrefix h ''.''"
    using assms by (cases h) (auto simp: bad_label_def)
  moreover have "find bad_label (Split (CHR ''.'') h) = None"
    using assms by (simp add: find_None_iff)
  ultimately show ?thesis by (simp add: check_host_def TrimPrefix_def)
qed

lemma port_chars:
  assumes "\<not> bad_port p"
  shows "p \<noteq> [] \<and> list_all entry_char p \<and> set p \<inter> set '':/*,@?#[]'' = {}"
proof -
  obtain n where n: "Atoi p = Some n" using assms by (auto simp: bad_port_def split: option.splits)
  then have "parse_digits (if HasPrefix p ''-'' \<or> HasPrefix p ''+'' then tl p else p) \<noteq> None"
    by (auto simp: Atoi_def Let_def split: option.splits if_splits)
  then have d: "list_all is_digit (if HasPrefix p ''-'' \<or> HasPrefix p ''+'' then tl p else p)"
    and "p \<noteq> []"
    by (auto simp: parse_digits_def split: if_splits)
  then obtain c r where p: "p = c # r" by (cases p) auto
  have "is_digit c \<or> c = CHR ''-'' \<or> c = CHR ''+''" and "list_all is_digit r"
    using d p by (auto split: if_splits)
  then have "\<forall>c \<in> set p. is_digit c \<or> c = CHR ''-'' \<or> c = CHR ''+''"
    using p by (auto simp: list_all_iff)
  then show ?thesis
    using \<open>p \<noteq> []\<close> by (fastforce simp: list_all_iff is_digit_iff entry_char_def of_char_mono)
qed

text \<open>A hostname with a port validates to itself.\<close>

lemma ValidateEntry_host_port:
  assumes h: "\<forall>w \<in> set (Split (CHR ''.'') h). \<not> bad_label w" and p: "\<not> bad_port p"
  shows "ValidateEntry u (h @ CHR '':'' # p) = Inr (h @ CHR '':'' # p)"
proof -
  let ?e = "h @ CHR '':'' # p"
  have hc: "c \<in> set h \<Longrightarrow> label_char c \<or> c = CHR ''.''" for c
    using good_labels_chars [OF h] .
  have dot: "entry_char (CHR ''.'')" and col: "entry_char (CHR '':'')"
    by (simp_all add: entry_char_def less_eq_char_def)
  have "list_all entry_char ?e"
    using hc label_char_entry_char port_chars [OF p] dot col by (auto simp: list_all_iff)
  then have n: "ToLower u (TrimSpace ?e) = ?e" by (simp add: entry_chars_id)
  have sep: "c \<notin> set h" if "c \<in> set ('':/*,@?#[] '' @ [CHR 0x09, CHR 0x0A])" for c
    using that hc label_char_not_sep by metis
  have psep: "c \<notin> set p" if "c \<in> set ('':/*,@?#[] '' @ [CHR 0x09, CHR 0x0A])" for c
    using that port_chars [OF p] by (fastforce simp: list_all_iff entry_char_def)
  have esep: "c \<notin> set ?e" if "c \<in> set (''/*,@?#[] '' @ [CHR 0x09, CHR 0x0A])" for c
    using that sep [of c] psep [of c] by auto
  have "\<not> Contains ?e ''://''"
    using esep [of "CHR ''/''"] by (auto dest!: Contains_set)
  moreover have "\<not> ContainsAny ?e (CHR '' '' # CHR 0x09 # CHR 0x0A # '',@?#'')"
    using esep by (auto simp: ContainsAny_iff)
  moreover have "SplitHostPort ?e = Inr (h, p)"
    using sep psep by (intro SplitHostPort_plain) (auto simp: brackets_free_def)
  ultimately show ?thesis
    using esep [of "CHR ''/''"] esep [of "CHR ''*''"] p good_labels_check_host [OF h]
    unfolding ValidateEntry_def n by (simp add: Contains_single split_entry_def)
qed

text \<open>C39: the remedy works: for a denied hostname target, the entry named in the denial is one
  \<open>ValidateEntry\<close> accepts as it stands, and the allowlist extended by it admits the target.\<close>

theorem SuggestEntry_admits:
  assumes t: "request_target u hostport = (host, port)"
    and h: "\<forall>w \<in> set (Split (CHR ''.'') host). \<not> bad_label w" and p: "\<not> bad_port port"
  shows "ValidateEntry u (SuggestEntry u hostport) = Inr (SuggestEntry u hostport) \<and>
    Permits u (a @ [SuggestEntry u hostport]) hostport"
proof -
  let ?s = "SuggestEntry u hostport"
  have nc: "CHR '':'' \<notin> set host" and br: "brackets_free host"
    using good_labels_chars [OF h] label_char_not_sep by (fastforce simp: brackets_free_def)+
  have s: "?s = (if port = ''80'' \<or> port = ''443'' then host else host @ CHR '':'' # port)"
    using t nc by (auto simp: SuggestEntry_def request_target_def JoinHostPort_def split: sum.splits)
  have ps: "CHR '':'' \<notin> set port" "brackets_free port" "port \<noteq> []"
    using port_chars [OF p] by (auto simp: brackets_free_def)
  have "ValidateEntry u ?s = Inr ?s"
  proof (cases "port = ''80'' \<or> port = ''443''")
    case True
    have "list_all (\<lambda>c. label_char c \<or> c = CHR ''.'') host"
      using good_labels_chars [OF h] by (auto simp: list_all_iff)
    with True s show ?thesis
      using good_labels_check_host [OF h] ValidateEntry_hostname by simp
  next
    case False
    with s show ?thesis using ValidateEntry_host_port [OF h p] by simp
  qed
  moreover have "rule_admits (rule_of ?s) host port"
  proof (cases "port = ''80'' \<or> port = ''443''")
    case True
    with s have "entry_parts ?s = (host, [])" using nc by (simp add: entry_parts_def SplitHostPort_no_colon)
    with True show ?thesis using good_labels_check_host [OF h] by (auto simp: rule_of_def)
  next
    case False
    with s have "entry_parts ?s = (host, port)"
      using SplitHostPort_plain [OF br ps(2) nc ps(1)] by (simp add: entry_parts_def)
    with ps show ?thesis by (simp add: rule_of_def)
  qed
  ultimately show ?thesis by (simp add: Permits_rules [OF t])
qed

theorem SuggestEntry_admits_witness:
  "ValidateEntry id (SuggestEntry id ''Forge.example.com.:49152'') =
     Inr (SuggestEntry id ''Forge.example.com.:49152'') \<and>
   Permits id ([] @ [SuggestEntry id ''Forge.example.com.:49152'']) ''Forge.example.com.:49152''"
  by (rule SuggestEntry_admits [where host = "''forge.example.com''" and port = "''49152''"]) code_simp+

text \<open>C6: two entries the daemon itself hands out or accepts are dead. The remedy for an IPv6
  target on a default port is the bare address, which \<open>Permits\<close> would match but \<open>ValidateEntry\<close>
  refuses; and a port with a leading zero or a sign passes the range check of \<open>ValidateEntry\<close>
  while \<open>Permits\<close> compares port texts, so the accepted entry does not open the port it denotes.\<close>

theorem dead_entries:
  "SuggestEntry u ''[2001:db8::1]:443'' = ''2001:db8::1'' \<and>
   Permits u [''2001:db8::1''] ''[2001:db8::1]:443'' \<and>
   ValidateEntry u ''2001:db8::1'' = Inl NotHostPort \<and>
   ValidateEntry u ''forge.example.com:08080'' = Inr ''forge.example.com:08080'' \<and>
   \<not> Permits u [''forge.example.com:08080''] ''forge.example.com:8080'' \<and>
   ValidateEntry u ''forge.example.com:+8080'' = Inr ''forge.example.com:+8080'' \<and>
   \<not> Permits u [''forge.example.com:+8080''] ''forge.example.com:8080''"
  by (intro conjI) code_simp+

end
