(* ===== verification/Proxy.thy ===== *)
theory Proxy
  imports Allowlist_Correct
begin

text \<open>
  The forward proxy of \<open>internal/egress/proxy.go\<close>: \<open>ServeHTTP\<close>, \<open>tunnel\<close>, \<open>deny\<close> and
  \<open>CloseTunnels\<close>. The network is a parameter: \<open>dial\<close> and \<open>roundTrip\<close> say what a dial or a
  forwarded request comes to, \<open>hijack\<close> what taking over the client's connection does. A handler
  returns the new proxy, what it answers, and the list of outbound attempts it made, so that
  "deny or dial" is a statement about that list.
\<close>

section \<open>Requests, answers and outbound attempts\<close>

type_synonym conn = nat
type_synonym header = "(string \<times> string list) list"

record http_request =
  Method :: string
  Host :: string            \<comment> \<open>\<open>r.Host\<close>, the target of a CONNECT\<close>
  IsAbs :: bool             \<comment> \<open>\<open>r.URL.IsAbs()\<close>\<close>
  Scheme :: string
  URLHost :: string         \<comment> \<open>\<open>r.URL.Host\<close>\<close>
  RequestURI :: string
  Headers :: header         \<comment> \<open>canonical keys, as \<open>net/http\<close> stores them\<close>

record http_response =
  StatusCode :: nat
  RespHeaders :: header
  RespBody :: string

datatype attempt = Dialed string | RoundTripped http_request

datatype proxy_answer =
    Denied string               \<comment> \<open>403, with the body\<close>
  | NotProxyRequest             \<comment> \<open>400\<close>
  | UpstreamUnreachable         \<comment> \<open>502\<close>
  | CannotHijack                \<comment> \<open>500\<close>
  | HijackFailed
  | Established "conn \<times> conn"    \<comment> \<open>200 on the hijacked connection\<close>
  | Forwarded http_response

datatype hijack_result = NoHijacker | HijackError | Hijacked conn

record network =
  dial :: "string \<Rightarrow> conn option"
  roundTrip :: "http_request \<Rightarrow> http_response option"
  hijack :: hijack_result

record proxy =
  Allow :: allowlist
  tunnels :: "(conn \<times> conn) list"

section \<open>The code\<close>

definition deny_body :: "(string \<Rightarrow> string) \<Rightarrow> string \<Rightarrow> string" where
  "deny_body u host = ''egress denied by the sandbox allowlist: '' @ host @ [CHR 0x0A] @ Remedy u host"

definition hopByHop :: "string list" where
  "hopByHop =
     [''Proxy-Connection'', ''Proxy-Authorization'', ''Connection'', ''Keep-Alive'', ''Te'',
      ''Trailer'', ''Transfer-Encoding'', ''Upgrade'']"

definition Header_Del :: "string \<Rightarrow> header \<Rightarrow> header" where
  "Header_Del k h = filter (\<lambda>(k', vs). k' \<noteq> k) h"

definition outbound :: "http_request \<Rightarrow> http_request" where
  "outbound r = r\<lparr>RequestURI := [], Headers := fold Header_Del hopByHop (Headers r)\<rparr>"

definition tunnel :: "(string \<Rightarrow> string) \<Rightarrow> network \<Rightarrow> proxy \<Rightarrow> http_request \<Rightarrow>
    proxy \<times> proxy_answer \<times> attempt list" where
  "tunnel u net p r =
     (let target = Host r
      in if \<not> Permits u (Allow p) target then (p, Denied (deny_body u target), [])
         else case dial net target of
                None \<Rightarrow> (p, UpstreamUnreachable, [Dialed target])
              | Some upstream \<Rightarrow>
                  (case hijack net of
                     NoHijacker \<Rightarrow> (p, CannotHijack, [Dialed target])
                   | HijackError \<Rightarrow> (p, HijackFailed, [Dialed target])
                   | Hijacked client \<Rightarrow>
                       (p\<lparr>tunnels := (client, upstream) # tunnels p\<rparr>,
                        Established (client, upstream), [Dialed target])))"

definition ServeHTTP :: "(string \<Rightarrow> string) \<Rightarrow> network \<Rightarrow> proxy \<Rightarrow> http_request \<Rightarrow>
    proxy \<times> proxy_answer \<times> attempt list" where
  "ServeHTTP u net p r =
     (if Method r = ''CONNECT'' then tunnel u net p r
      else if \<not> IsAbs r then (p, NotProxyRequest, [])
      else
        let target = URLHost r
        in if \<not> Permits u (Allow p) target then (p, Denied (deny_body u target), [])
           else case roundTrip net (outbound r) of
                  None \<Rightarrow> (p, UpstreamUnreachable, [RoundTripped (outbound r)])
                | Some resp \<Rightarrow> (p, Forwarded resp, [RoundTripped (outbound r)]))"

text \<open>
  \<open>CloseTunnels\<close> closes both ends of every registered pair and returns when the copy loops have
  ended, each of which removes its pair. The open pairs of the process are the set \<open>conns\<close>.
\<close>

definition CloseTunnels :: "proxy \<Rightarrow> (conn \<times> conn) set \<Rightarrow> proxy \<times> (conn \<times> conn) set" where
  "CloseTunnels p conns = (p\<lparr>tunnels := []\<rparr>, conns - set (tunnels p))"

section \<open>Deny or dial\<close>

fun attempt_target :: "attempt \<Rightarrow> string" where
  "attempt_target (Dialed t) = t"
| "attempt_target (RoundTripped r) = URLHost r"


definition no_network :: network where
  "no_network = \<lparr>dial = (\<lambda>_. None), roundTrip = (\<lambda>_. None), hijack = NoHijacker\<rparr>"

definition connect_to :: "string \<Rightarrow> http_request" where
  "connect_to t = \<lparr>Method = ''CONNECT'', Host = t, IsAbs = False, Scheme = [], URLHost = t,
     RequestURI = t, Headers = []\<rparr>"


lemma fold_Header_Del:
  "(k, vs) \<in> set (fold Header_Del ks h) \<longleftrightarrow> (k, vs) \<in> set h \<and> k \<notin> set ks"
  by (induction ks arbitrary: h) (auto simp: Header_Del_def)

text \<open>C8: a forwarded request carries exactly the client's headers without the hop-by-hop ones,
  the same target, and no request URI.\<close>

theorem outbound_headers:
  "set (Headers (outbound r)) = {(k, vs) \<in> set (Headers r). k \<notin> set hopByHop} \<and>
   URLHost (outbound r) = URLHost r \<and> Method (outbound r) = Method r \<and> RequestURI (outbound r) = []"
  by (auto simp: outbound_def fold_Header_Del)

section \<open>Where the code departs from its documentation\<close>

text \<open>
  The port a forwarded request really reaches: \<open>http.Transport\<close> dials the port of the URL and, when
  it names none, the default port of the scheme.
\<close>

definition dialed_port :: "http_request \<Rightarrow> string" where
  "dialed_port r =
     (case SplitHostPort (URLHost r) of
        Inr (h, p) \<Rightarrow> if p \<noteq> [] then p else if Scheme r = ''https'' then ''443'' else ''80''
      | Inl _ \<Rightarrow> if Scheme r = ''https'' then ''443'' else ''80'')"

definition plain_get :: "string \<Rightarrow> http_request" where
  "plain_get h = \<lparr>Method = ''GET'', Host = h, IsAbs = True, Scheme = ''http'', URLHost = h,
     RequestURI = ''http://'' @ h @ ''/'', Headers = []\<rparr>"

text \<open>C9: a plain-HTTP target without a port is judged as port 443 but dialled on port 80. So an
  entry scoped to port 443 opens port 80 as well, and an entry scoped to port 80 refuses the
  plain-HTTP request it was written for.\<close>

theorem port_scope_leak:
  assumes "roundTrip net (outbound (plain_get ''forge.example.com'')) = Some resp"
  shows "ServeHTTP u net \<lparr>Allow = [''forge.example.com:443''], tunnels = []\<rparr> (plain_get ''forge.example.com'') =
      (\<lparr>Allow = [''forge.example.com:443''], tunnels = []\<rparr>, Forwarded resp,
       [RoundTripped (outbound (plain_get ''forge.example.com''))]) \<and>
    dialed_port (outbound (plain_get ''forge.example.com'')) = ''80'' \<and>
    ServeHTTP u net \<lparr>Allow = [''forge.example.com:80''], tunnels = []\<rparr> (plain_get ''forge.example.com'') =
      (\<lparr>Allow = [''forge.example.com:80''], tunnels = []\<rparr>, Denied (deny_body u ''forge.example.com''), [])"
proof -
  have "Permits u [''forge.example.com:443''] ''forge.example.com''"
    and "\<not> Permits u [''forge.example.com:80''] ''forge.example.com''"
    and "dialed_port (outbound (plain_get ''forge.example.com'')) = ''80''"
    by code_simp+
  with assms show ?thesis by (simp add: ServeHTTP_def plain_get_def Let_def)
qed

definition one_page :: "network" where
  "one_page = no_network\<lparr>roundTrip := (\<lambda>_. Some \<lparr>StatusCode = 200, RespHeaders = [], RespBody = ''hello''\<rparr>)\<rparr>"

theorem port_scope_leak_witness:
  "fst (snd (ServeHTTP id one_page \<lparr>Allow = [''forge.example.com:443''], tunnels = []\<rparr>
     (plain_get ''forge.example.com''))) =
   Forwarded \<lparr>StatusCode = 200, RespHeaders = [], RespBody = ''hello''\<rparr>"
  using port_scope_leak [of one_page "\<lparr>StatusCode = 200, RespHeaders = [], RespBody = ''hello''\<rparr>" id]
  by (simp add: one_page_def)

end
