(* ===== verification/Pool.thy ===== *)
theory Pool
  imports Proxy
begin

text \<open>
  \<open>internal/egress/pool.go\<close>: the listeners the daemon serves, one shared and one per run that
  passed entries of its own. A server is the address of its listener; \<open>perRun\<close> and \<open>perRunPx\<close> are
  the two parallel maps of the code. Two fields stand for the operating system: \<open>listeners\<close>, the
  addresses that accept connections, and \<open>conns\<close>, the open tunnel pairs of the process. What
  \<open>net.Listen\<close> returns is an argument (\<open>None\<close>: it failed).
\<close>

section \<open>The code\<close>

record pool =
  Base :: allowlist
  Bind :: string
  shared :: string
  perRun :: "string \<rightharpoonup> string"
  perRunPx :: "string \<rightharpoonup> proxy"
  sharedSrv :: "string option"
  sharedPx :: "proxy option"
  listeners :: "string set"
  conns :: "(conn \<times> conn) set"

datatype egress_error = ListenFailed string

definition SharedURL :: "pool \<Rightarrow> string" where
  "SharedURL p = shared p"

definition Pool_Start :: "string \<Rightarrow> string option \<Rightarrow> pool \<Rightarrow> pool \<times> (egress_error + string)" where
  "Pool_Start port listen p =
     (case listen of
        None \<Rightarrow> (p, Inl (ListenFailed (JoinHostPort (Bind p) port)))
      | Some a \<Rightarrow>
          let p = p\<lparr>listeners := insert a (listeners p), shared := ''http://'' @ a,
                    sharedSrv := Some a, sharedPx := Some \<lparr>Allow = Base p, tunnels = []\<rparr>\<rparr>
          in (p, Inr (SharedURL p)))"

definition close_proxy :: "proxy \<Rightarrow> pool \<Rightarrow> pool" where
  "close_proxy px p = p\<lparr>conns := snd (CloseTunnels px (conns p))\<rparr>"

definition close_server :: "string \<Rightarrow> pool \<Rightarrow> pool" where
  "close_server a p = p\<lparr>listeners := listeners p - {a}\<rparr>"

definition OpenFor :: "(string \<Rightarrow> string) \<Rightarrow> string option \<Rightarrow> string \<Rightarrow> string list \<Rightarrow> pool \<Rightarrow>
    pool \<times> (egress_error + string)" where
  "OpenFor u listen runID extra p =
     (if extra = [] then (p, Inr (SharedURL p))
      else
        let allow = Base p @ ParseAllowlist u (Join '','' extra)
        in case listen of
             None \<Rightarrow> (p, Inl (ListenFailed (JoinHostPort (Bind p) ''0'')))
           | Some a \<Rightarrow>
               let px = \<lparr>Allow = allow, tunnels = []\<rparr>;
                   p = p\<lparr>listeners := insert a (listeners p)\<rparr>;
                   p = (case perRun p runID of
                          None \<Rightarrow> p
                        | Some old \<Rightarrow>
                            close_server old
                              (case perRunPx p runID of None \<Rightarrow> p | Some oldPx \<Rightarrow> close_proxy oldPx p));
                   p = p\<lparr>perRun := (perRun p)(runID \<mapsto> a), perRunPx := (perRunPx p)(runID \<mapsto> px)\<rparr>
               in (p, Inr (''http://'' @ a)))"

definition Pool_Close :: "string \<Rightarrow> pool \<Rightarrow> pool" where
  "Pool_Close runID p =
     (let server = perRun p runID; px = perRunPx p runID;
          p = p\<lparr>perRun := (perRun p)(runID := None), perRunPx := (perRunPx p)(runID := None)\<rparr>
      in case server of
           None \<Rightarrow> p
         | Some a \<Rightarrow> close_server a (case px of None \<Rightarrow> p | Some px \<Rightarrow> close_proxy px p))"

text \<open>\<open>Shutdown\<close> ranges over the map \<open>perRun\<close>; \<open>ids\<close> is the order Go happens to pick.\<close>

definition Pool_Shutdown :: "string list \<Rightarrow> pool \<Rightarrow> pool" where
  "Pool_Shutdown ids p =
     (let srv = sharedSrv p; px = sharedPx p;
          p = fold Pool_Close ids p;
          p = (case px of None \<Rightarrow> p | Some px \<Rightarrow> close_proxy px p)
      in case srv of None \<Rightarrow> p | Some a \<Rightarrow> close_server a p)"

text \<open>A CONNECT that reached the tunnel of run \<open>runID\<close>'s listener: the pair is open and registered.\<close>

definition run_connect :: "(string \<Rightarrow> string) \<Rightarrow> network \<Rightarrow> string \<Rightarrow> http_request \<Rightarrow> pool \<Rightarrow> pool" where
  "run_connect u net runID r p =
     (case perRunPx p runID of
        None \<Rightarrow> p
      | Some px \<Rightarrow>
          (case tunnel u net px r of
             (px', Established pair, _) \<Rightarrow>
               p\<lparr>perRunPx := (perRunPx p)(runID \<mapsto> px'), conns := insert pair (conns p)\<rparr>
           | _ \<Rightarrow> p))"

section \<open>The interface the manager relies on\<close>

text \<open>
  \<open>EgressProxy\<close> in \<open>internal/run/manager.go\<close>: \<open>allowed\<close> observes the allowlist of a run's private
  proxy. The laws are what the manager's create and destroy paths count on: a successful open
  gives the run a private proxy of the base list plus its own entries and touches no other run's,
  a failed open or a close leaves none behind, and closing a run that has none changes nothing.
\<close>

locale egress_proxy =
  fixes open_for :: "'n \<Rightarrow> string \<Rightarrow> string list \<Rightarrow> 'e \<Rightarrow> 'e \<times> ('x + string)"
    and close :: "string \<Rightarrow> 'e \<Rightarrow> 'e"
    and allowed :: "'e \<Rightarrow> string \<Rightarrow> allowlist option"
    and base :: "'e \<Rightarrow> allowlist"
    and valid :: "string list \<Rightarrow> bool"
  assumes open_ok: "open_for n i extra e = (e', Inr url) \<Longrightarrow> extra \<noteq> [] \<Longrightarrow> valid extra \<Longrightarrow>
      allowed e' = (allowed e)(i \<mapsto> base e @ extra)"
    and open_failed: "open_for n i extra e = (e', Inl x) \<Longrightarrow> e' = e"
    and close_allowed: "allowed (close i e) = (allowed e)(i := None)"
    and close_base: "base (close i e) = base e"
    and open_base: "base (fst (open_for n i extra e)) = base e"
begin

lemma open_close:
  "open_for n i extra e = (e', r) \<Longrightarrow> extra \<noteq> [] \<Longrightarrow> valid extra \<Longrightarrow> allowed e i = None \<Longrightarrow>
   allowed (close i e') = allowed e"
  by (cases r) (auto simp: close_allowed fun_upd_idem_iff dest: open_ok open_failed)

lemma close_close: "allowed (close i (close i e)) = allowed (close i e)"
  by (simp add: close_allowed)

lemma other_untouched:
  "open_for n i extra e = (e', r) \<Longrightarrow> extra \<noteq> [] \<Longrightarrow> valid extra \<Longrightarrow> j \<noteq> i \<Longrightarrow>
   allowed e' j = allowed e j \<and> allowed (close i e') j = allowed e j"
  by (cases r) (auto simp: close_allowed dest: open_ok open_failed)

lemma fold_close_allowed:
  "allowed (fold close ids e) = (\<lambda>j. if j \<in> set ids then None else allowed e j)"
  by (induction ids arbitrary: e) (auto simp: close_allowed)

end

definition allowed_of :: "pool \<Rightarrow> string \<Rightarrow> allowlist option" where
  "allowed_of p runID = map_option Allow (perRunPx p runID)"

definition validated :: "(string \<Rightarrow> string) \<Rightarrow> string list \<Rightarrow> bool" where
  "validated u extra \<longleftrightarrow> lowers u \<and> (\<forall>e \<in> set extra. ValidateEntry u e = Inr e)"

lemma close_proxy_fields [simp]:
  "perRun (close_proxy px p) = perRun p" "perRunPx (close_proxy px p) = perRunPx p"
  "Base (close_proxy px p) = Base p" "listeners (close_proxy px p) = listeners p"
  "conns (close_proxy px p) = conns p - set (tunnels px)"
  "sharedSrv (close_proxy px p) = sharedSrv p" "sharedPx (close_proxy px p) = sharedPx p"
  by (simp_all add: close_proxy_def CloseTunnels_def)

lemma close_server_fields [simp]:
  "perRun (close_server a p) = perRun p" "perRunPx (close_server a p) = perRunPx p"
  "Base (close_server a p) = Base p" "listeners (close_server a p) = listeners p - {a}"
  "conns (close_server a p) = conns p"
  "sharedSrv (close_server a p) = sharedSrv p" "sharedPx (close_server a p) = sharedPx p"
  by (simp_all add: close_server_def)

lemma Pool_Close_fields [simp]:
  "perRun (Pool_Close i p) = (perRun p)(i := None)"
  "perRunPx (Pool_Close i p) = (perRunPx p)(i := None)"
  "Base (Pool_Close i p) = Base p"
  "sharedSrv (Pool_Close i p) = sharedSrv p" "sharedPx (Pool_Close i p) = sharedPx p"
  by (auto simp: Pool_Close_def Let_def split: option.splits)

lemma OpenFor_private:
  "OpenFor u n i extra p = (p', Inr url) \<Longrightarrow> extra \<noteq> [] \<Longrightarrow>
   perRunPx p' = (perRunPx p)(i \<mapsto> \<lparr>Allow = Base p @ ParseAllowlist u (Join '','' extra), tunnels = []\<rparr>) \<and>
   (\<exists>a. n = Some a \<and> url = ''http://'' @ a \<and> perRun p' = (perRun p)(i \<mapsto> a))"
  by (auto simp: OpenFor_def Let_def split: option.splits)

lemma OpenFor_Base: "Base (fst (OpenFor u n i extra p)) = Base p"
  by (auto simp: OpenFor_def Let_def split: option.splits)

lemma OpenFor_failed: "OpenFor u n i extra p = (p', Inl x) \<Longrightarrow> p' = p"
  by (auto simp: OpenFor_def Let_def split: if_splits option.splits)

interpretation pool_egress: egress_proxy "OpenFor u" Pool_Close allowed_of Base "validated u" for u
proof
  show "allowed_of e' = (allowed_of e)(i \<mapsto> Base e @ extra)"
    if "OpenFor u n i extra e = (e', Inr url)" "extra \<noteq> []" "validated u extra" for n i extra e e' url
    using OpenFor_private [OF that(1,2)] that(3)
    by (auto simp: allowed_of_def validated_def ParseAllowlist_Join)
qed (auto simp: allowed_of_def OpenFor_Base dest: OpenFor_failed)

section \<open>Nothing is orphaned\<close>

text \<open>
  The invariant: the open listeners are exactly the registered ones, the open tunnels exactly
  those a registered proxy knows, and no two runs share either.
\<close>

definition px_tunnels :: "pool \<Rightarrow> string option \<Rightarrow> (conn \<times> conn) set" where
  "px_tunnels p k =
     (case k of
        None \<Rightarrow> (case sharedPx p of None \<Rightarrow> {} | Some px \<Rightarrow> set (tunnels px))
      | Some i \<Rightarrow> (case perRunPx p i of None \<Rightarrow> {} | Some px \<Rightarrow> set (tunnels px)))"

definition srv_addr :: "pool \<Rightarrow> string option \<Rightarrow> string option" where
  "srv_addr p k = (case k of None \<Rightarrow> sharedSrv p | Some i \<Rightarrow> perRun p i)"

definition pool_inv :: "pool \<Rightarrow> bool" where
  "pool_inv p \<longleftrightarrow>
     dom (perRun p) = dom (perRunPx p) \<and>
     listeners p = ran (srv_addr p) \<and> inj_on (srv_addr p) (dom (srv_addr p)) \<and>
     conns p = (\<Union>k. px_tunnels p k) \<and> disjoint_family (px_tunnels p)"

lemma srv_addr_Close: "srv_addr (Pool_Close i p) = (srv_addr p)(Some i := None)"
  by (auto simp: srv_addr_def fun_eq_iff split: option.splits)

lemma px_tunnels_Close: "px_tunnels (Pool_Close i p) = (px_tunnels p)(Some i := {})"
  by (auto simp: px_tunnels_def fun_eq_iff split: option.splits)

lemma Pool_Close_os:
  assumes "dom (perRun p) = dom (perRunPx p)"
  shows "listeners (Pool_Close i p) = listeners p - set_option (srv_addr p (Some i))"
    and "conns (Pool_Close i p) = conns p - px_tunnels p (Some i)"
proof -
  have "perRun p i = None \<longleftrightarrow> perRunPx p i = None"
    using assms by (metis domIff)
  then show "listeners (Pool_Close i p) = listeners p - set_option (srv_addr p (Some i))"
    and "conns (Pool_Close i p) = conns p - px_tunnels p (Some i)"
    by (cases "perRun p i"; cases "perRunPx p i";
        simp add: Pool_Close_def Let_def srv_addr_def px_tunnels_def)+
qed

lemma pool_inv_Close: "pool_inv p \<Longrightarrow> pool_inv (Pool_Close i p)"
  unfolding pool_inv_def srv_addr_Close px_tunnels_Close
  by (simp add: Pool_Close_os ran_remove inj_remove union_remove disjoint_remove del: fun_upd_apply)

lemma OpenFor_os:
  assumes "dom (perRun p) = dom (perRunPx p)" and "extra \<noteq> []"
    and "OpenFor u (Some a) i extra p = (p', r)"
  shows "r = Inr (''http://'' @ a)"
    and "listeners p' = insert a (listeners p) - set_option (srv_addr p (Some i))"
    and "conns p' = conns p - px_tunnels p (Some i)"
    and "srv_addr p' = (srv_addr p)(Some i \<mapsto> a)"
    and "px_tunnels p' = (px_tunnels p)(Some i := {})"
    and "dom (perRun p') = dom (perRunPx p')"
proof -
  have i: "perRun p i = None \<longleftrightarrow> perRunPx p i = None"
    using assms(1) by (metis domIff)
  note defs = OpenFor_def Let_def srv_addr_def px_tunnels_def fun_eq_iff
  show "r = Inr (''http://'' @ a)"
    and "listeners p' = insert a (listeners p) - set_option (srv_addr p (Some i))"
    and "conns p' = conns p - px_tunnels p (Some i)"
    using i assms(2,3) by (cases "perRun p i"; cases "perRunPx p i"; simp add: defs; fastforce)+
  show "srv_addr p' = (srv_addr p)(Some i \<mapsto> a)"
    and "px_tunnels p' = (px_tunnels p)(Some i := {})"
    and "dom (perRun p') = dom (perRunPx p')"
    using i assms by (cases "perRun p i"; cases "perRunPx p i"; auto simp: defs split: option.splits)+
qed

lemma pool_inv_OpenFor:
  assumes inv: "pool_inv p" and fresh: "a \<notin> listeners p" and ex: "extra \<noteq> []"
    and o: "OpenFor u (Some a) i extra p = (p', r)"
  shows "pool_inv p'"
proof -
  from inv have d: "dom (perRun p) = dom (perRunPx p)" by (simp add: pool_inv_def)
  note os = OpenFor_os [OF d ex o]
  have "listeners p' = ran ((srv_addr p)(Some i \<mapsto> a))"
    using inv fresh os(2) by (auto simp: pool_inv_def ran_replace intro: ranI)
  moreover have "inj_on ((srv_addr p)(Some i \<mapsto> a)) (insert (Some i) (dom (srv_addr p)))"
    using inv fresh by (intro inj_replace) (auto simp: pool_inv_def)
  ultimately show ?thesis
    using inv os by (simp add: pool_inv_def union_remove disjoint_remove del: fun_upd_apply)
qed

lemma pool_inv_Start:
  assumes inv: "pool_inv p" and fresh: "a \<notin> listeners p" and once: "sharedSrv p = None" "sharedPx p = None"
  shows "pool_inv (fst (Pool_Start port (Some a) p))"
proof -
  let ?p = "fst (Pool_Start port (Some a) p)"
  have s: "srv_addr ?p = (srv_addr p)(None \<mapsto> a)" and t: "px_tunnels ?p = px_tunnels p"
    and d: "dom (perRun ?p) = dom (perRunPx ?p)"
    and l: "listeners ?p = insert a (listeners p)" and c: "conns ?p = conns p"
    using inv once by (auto simp: Pool_Start_def Let_def srv_addr_def px_tunnels_def fun_eq_iff pool_inv_def
        split: option.splits)
  have n: "srv_addr p None = None" using once by (simp add: srv_addr_def)
  have "inj_on ((srv_addr p)(None \<mapsto> a)) (insert None (dom (srv_addr p)))"
    using inv fresh by (intro inj_replace) (auto simp: pool_inv_def)
  with inv s t d l c n show ?thesis
    by (simp add: pool_inv_def ran_replace del: fun_upd_apply)
qed

text \<open>A tunnel is registered with the proxy that accepted it.\<close>

lemma pool_inv_connect:
  assumes inv: "pool_inv p"
    and fresh: "\<And>px c. perRunPx p i = Some px \<Longrightarrow> fst (snd (tunnel u net px r)) = Established c \<Longrightarrow> c \<notin> conns p"
  shows "pool_inv (run_connect u net i r p)"
proof (cases "\<exists>px c. perRunPx p i = Some px \<and> fst (snd (tunnel u net px r)) = Established c")
  case False
  then have "run_connect u net i r p = p"
    by (auto simp: run_connect_def split: option.splits prod.splits proxy_answer.splits)
  with inv show ?thesis by simp
next
  case True
  then obtain px c where px: "perRunPx p i = Some px" and c: "fst (snd (tunnel u net px r)) = Established c"
    by blast
  let ?p = "run_connect u net i r p"
  obtain atts where tun: "tunnel u net px r = (px\<lparr>tunnels := c # tunnels px\<rparr>, Established c, atts)"
    using c by (auto simp: tunnel_def Let_def split: if_splits option.splits hijack_result.splits)
  have s: "srv_addr ?p = srv_addr p" and "conns ?p = insert c (conns p)"
    and "listeners ?p = listeners p" and "dom (perRun ?p) = dom (perRun p)"
    and "dom (perRunPx ?p) = dom (perRunPx p)"
    and t: "px_tunnels ?p = (px_tunnels p)(Some i := insert c (px_tunnels p (Some i)))"
    using px tun by (auto simp: run_connect_def srv_addr_def px_tunnels_def fun_eq_iff split: option.splits)
  moreover have "c \<notin> (\<Union>k. px_tunnels p k)"
    using fresh [OF px c] inv by (simp add: pool_inv_def)
  ultimately show ?thesis
    using inv by (simp add: pool_inv_def union_insert disjoint_insert del: fun_upd_apply)
qed

text \<open>
  The states the daemon's pool goes through: it is created empty, started once, and then opens,
  closes and serves in any order. The kernel never hands out an address in use or an open pair.
\<close>

inductive pool_reach :: "(string \<Rightarrow> string) \<Rightarrow> pool \<Rightarrow> bool" for u where
  pool_new: "pool_reach u \<lparr>Base = b, Bind = g, shared = [], perRun = Map.empty, perRunPx = Map.empty,
     sharedSrv = None, sharedPx = None, listeners = {}, conns = {}\<rparr>"
| pool_start: "pool_reach u p \<Longrightarrow> sharedSrv p = None \<Longrightarrow> sharedPx p = None \<Longrightarrow> a \<notin> listeners p \<Longrightarrow>
     pool_reach u (fst (Pool_Start port (Some a) p))"
| pool_open: "pool_reach u p \<Longrightarrow> extra \<noteq> [] \<Longrightarrow> a \<notin> listeners p \<Longrightarrow>
     pool_reach u (fst (OpenFor u (Some a) i extra p))"
| pool_open_failed: "pool_reach u p \<Longrightarrow> pool_reach u (fst (OpenFor u None i extra p))"
| pool_close: "pool_reach u p \<Longrightarrow> pool_reach u (Pool_Close i p)"
| pool_connect: "pool_reach u p \<Longrightarrow>
     (\<And>px c. perRunPx p i = Some px \<Longrightarrow> fst (snd (tunnel u net px r)) = Established c \<Longrightarrow> c \<notin> conns p) \<Longrightarrow>
     pool_reach u (run_connect u net i r p)"

lemma pool_reach_inv: "pool_reach u p \<Longrightarrow> pool_inv p"
proof (induction rule: pool_reach.induct)
  case (pool_new b g)
  show ?case by (auto simp: pool_inv_def srv_addr_def px_tunnels_def disjoint_family_on_def ran_def dom_def
        inj_on_def split: option.splits)
next
  case (pool_open p extra a i)
  then show ?case using pool_inv_OpenFor [of p a extra u i] by (cases "OpenFor u (Some a) i extra p") auto
next
  case (pool_open_failed p i extra)
  then show ?case by (simp add: OpenFor_def)
next
  case (pool_connect p i net r)
  then show ?case by (intro pool_inv_connect) auto
qed (auto intro: pool_inv_Start pool_inv_Close)


definition sample_pool :: pool where
  "sample_pool = fst (OpenFor id (Some ''172.31.99.1:40001'') ''r1'' [''forge.example.com'']
     \<lparr>Base = [], Bind = ''172.31.99.1'', shared = [], perRun = Map.empty, perRunPx = Map.empty,
      sharedSrv = None, sharedPx = None, listeners = {}, conns = {}\<rparr>)"

lemma sample_pool_reach: "pool_reach id sample_pool"
  unfolding sample_pool_def by (rule pool_open [OF pool_new]) simp_all

lemma sample_pool_addr: "sharedSrv sample_pool = None \<and> perRun sample_pool = [''r1'' \<mapsto> ''172.31.99.1:40001'']"
  by (simp add: sample_pool_def OpenFor_def)

lemma pool_no_orphans_sample: "listeners sample_pool = {''172.31.99.1:40001''}"
  by (simp add: sample_pool_def OpenFor_def)


text \<open>C40: closing a run's proxy takes down its listener and every tunnel it carried, and leaves
  every other run's listener, proxy and tunnels as they were.\<close>

theorem Pool_Close_complete:
  assumes "pool_reach u p"
  shows "perRun (Pool_Close i p) i = None \<and>
    listeners (Pool_Close i p) = listeners p - set_option (perRun p i) \<and>
    conns (Pool_Close i p) = conns p - px_tunnels p (Some i) \<and>
    (\<forall>j. j \<noteq> i \<longrightarrow> perRun (Pool_Close i p) j = perRun p j \<and> perRunPx (Pool_Close i p) j = perRunPx p j \<and>
       set_option (perRun p j) \<subseteq> listeners (Pool_Close i p) \<and>
       px_tunnels p (Some j) \<subseteq> conns (Pool_Close i p))"
proof -
  have inv: "pool_inv p" and inv': "pool_inv (Pool_Close i p)"
    using assms pool_reach_inv pool_inv_Close by blast+
  then have d: "dom (perRun p) = dom (perRunPx p)" by (simp add: pool_inv_def)
  have "set_option (perRun p j) \<subseteq> listeners (Pool_Close i p)" if "j \<noteq> i" for j
    using inv' that by (auto simp: pool_inv_def srv_addr_Close ran_def srv_addr_def intro: exI [of _ "Some j"])
  moreover have "px_tunnels p (Some j) \<subseteq> conns (Pool_Close i p)" if "j \<noteq> i" for j
    using inv' that by (auto simp: pool_inv_def px_tunnels_Close intro: exI [of _ "Some j"])
  ultimately show ?thesis
    using Pool_Close_os [OF d, of i] by (auto simp: srv_addr_def)
qed

theorem Pool_Close_complete_witness: "listeners (Pool_Close ''r1'' sample_pool) = {}"
  using Pool_Close_complete [OF sample_pool_reach, of "''r1''"] pool_no_orphans_sample sample_pool_addr
  by simp

text \<open>C12: a run that passed validated entries is filtered by the deployment's list followed by
  exactly those entries, no other run's list changes, and closing the run's proxy restores the
  state of the pool's lists.\<close>

theorem OpenFor_private_allowlist:
  assumes "lowers u" and "ValidateAllowlist u raws = Inr extra" and "extra \<noteq> []"
    and "OpenFor u (Some a) i extra p = (p', r)"
  shows "r = Inr (''http://'' @ a) \<and> allowed_of p' = (allowed_of p)(i \<mapsto> Base p @ extra) \<and>
    (allowed_of p i = None \<longrightarrow> allowed_of (Pool_Close i p') = allowed_of p)"
proof -
  have v: "validated u extra"
    using assms(1,2) ValidateAllowlist_set ValidateEntry_idem unfolding validated_def by metis
  have r: "r = Inr (''http://'' @ a)"
    using assms(3,4) by (auto simp: OpenFor_def Let_def)
  with assms(3,4) v show ?thesis
    using pool_egress.open_ok pool_egress.open_close by metis
qed

theorem OpenFor_private_allowlist_witness:
  "allowed_of (fst (OpenFor (map lower_char) (Some ''172.31.99.1:40001'') ''r1'' [''forge.example.com'']
     sample_pool)) ''r1'' = Some (Base sample_pool @ [''forge.example.com''])"
proof -
  have l: "lowers (map lower_char)" by (simp add: lowers_def)
  have v: "ValidateAllowlist (map lower_char) ['' Forge.example.com''] = Inr [''forge.example.com'']"
    by code_simp
  show ?thesis
    using OpenFor_private_allowlist [OF l v, of "''172.31.99.1:40001''" "''r1''" sample_pool]
    by (cases "OpenFor (map lower_char) (Some ''172.31.99.1:40001'') ''r1'' [''forge.example.com''] sample_pool")
      auto
qed

lemma fold_Close:
  "pool_inv p \<Longrightarrow> pool_inv (fold Pool_Close ids p) \<and>
   srv_addr (fold Pool_Close ids p) = (\<lambda>k. if k \<in> Some ` set ids then None else srv_addr p k) \<and>
   px_tunnels (fold Pool_Close ids p) = (\<lambda>k. if k \<in> Some ` set ids then {} else px_tunnels p k) \<and>
   sharedSrv (fold Pool_Close ids p) = sharedSrv p \<and> sharedPx (fold Pool_Close ids p) = sharedPx p"
proof (induction ids arbitrary: p)
  case Nil
  then show ?case by simp
next
  case (Cons i ids)
  then have "pool_inv (Pool_Close i p)" by (simp add: pool_inv_Close)
  from Cons.IH [OF this] show ?case
    by (auto simp: srv_addr_Close px_tunnels_Close fun_eq_iff)
qed

text \<open>C13: whatever order Go iterates the map in, \<open>Shutdown\<close> leaves no listener and no tunnel.\<close>

theorem Pool_Shutdown_complete:
  assumes "pool_reach u p" and "set ids = dom (perRun p)"
  shows "listeners (Pool_Shutdown ids p) = {} \<and> conns (Pool_Shutdown ids p) = {}"
proof -
  let ?q = "fold Pool_Close ids p"
  have inv: "pool_inv p" using assms(1) by (rule pool_reach_inv)
  then have d: "set ids = dom (perRunPx p)" using assms(2) by (simp add: pool_inv_def)
  note q = fold_Close [OF inv, of ids]
  have "srv_addr ?q = (\<lambda>k. if k = None then sharedSrv p else None)"
    using q assms(2) by (auto simp: fun_eq_iff srv_addr_def dom_def split: option.splits)
  then have l: "listeners ?q = set_option (sharedSrv p)"
    using q by (auto simp: pool_inv_def ran_def split: if_splits)
  have "px_tunnels ?q = (\<lambda>k. if k = None then px_tunnels p None else {})"
    using q d by (auto simp: fun_eq_iff px_tunnels_def dom_def split: option.splits if_splits)
  then have c: "conns ?q = px_tunnels p None"
    using q by (auto simp: pool_inv_def split: if_splits)
  show ?thesis
    using l c by (cases "sharedSrv p"; cases "sharedPx p"; simp add: Pool_Shutdown_def Let_def px_tunnels_def)
qed

theorem Pool_Shutdown_complete_witness:
  "listeners (Pool_Shutdown [''r1''] sample_pool) = {} \<and> conns (Pool_Shutdown [''r1''] sample_pool) = {}"
  using Pool_Shutdown_complete [OF sample_pool_reach, of "[''r1'']"] sample_pool_addr by simp

section \<open>A tunnel that outlives its listener\<close>

text \<open>
  \<open>Pool.Close\<close> is not atomic: it first closes the tunnels it finds and waits for them, and only
  then closes the server. Until then the listener accepts CONNECTs, and a hijacked connection is
  out of reach of \<open>server.Close\<close>. The relation interleaves the two halves with new requests.
\<close>

datatype phase = Serving | TunnelsClosed | ServerClosed

record closing =
  phase :: phase
  px :: proxy
  open_pairs :: "(conn \<times> conn) set"

inductive close_step :: "(string \<Rightarrow> string) \<Rightarrow> closing \<Rightarrow> closing \<Rightarrow> bool" for u where
  accept: "phase s \<noteq> ServerClosed \<Longrightarrow> tunnel u net (px s) r = (px', Established c, atts) \<Longrightarrow>
     close_step u s (s\<lparr>px := px', open_pairs := insert c (open_pairs s)\<rparr>)"
| close_tunnels: "phase s = Serving \<Longrightarrow> CloseTunnels (px s) (open_pairs s) = (px', open') \<Longrightarrow>
     close_step u s (s\<lparr>phase := TunnelsClosed, px := px', open_pairs := open'\<rparr>)"
| close_srv: "phase s = TunnelsClosed \<Longrightarrow> close_step u s (s\<lparr>phase := ServerClosed\<rparr>)"

text \<open>C14: a CONNECT accepted between the two halves of \<open>Close\<close> leaves its tunnel open after
  \<open>Close\<close> has returned.\<close>

theorem Close_race_leaks_tunnel:
  assumes "tunnel u net \<lparr>Allow = a, tunnels = []\<rparr> r = (px', Established c, atts)"
  shows "\<exists>s. (close_step u)\<^sup>*\<^sup>* \<lparr>phase = Serving, px = \<lparr>Allow = a, tunnels = []\<rparr>, open_pairs = {}\<rparr> s \<and>
    phase s = ServerClosed \<and> c \<in> open_pairs s"
proof -
  let ?s0 = "\<lparr>phase = Serving, px = \<lparr>Allow = a, tunnels = []\<rparr>, open_pairs = {}\<rparr>"
  let ?s1 = "?s0\<lparr>phase := TunnelsClosed, px := \<lparr>Allow = a, tunnels = []\<rparr>, open_pairs := {}\<rparr>"
  let ?s2 = "?s1\<lparr>px := px', open_pairs := insert c (open_pairs ?s1)\<rparr>"
  have "close_step u ?s0 ?s1" by (rule close_tunnels) (simp_all add: CloseTunnels_def)
  moreover have "close_step u ?s1 ?s2" by (rule accept [where net = net and r = r]) (use assms in simp_all)
  moreover have "close_step u ?s2 (?s2\<lparr>phase := ServerClosed\<rparr>)" by (rule close_srv) simp
  ultimately have "(close_step u)\<^sup>*\<^sup>* ?s0 (?s2\<lparr>phase := ServerClosed\<rparr>)"
    by (meson converse_rtranclp_into_rtranclp rtranclp.rtrancl_refl)
  then show ?thesis by (intro exI [of _ "?s2\<lparr>phase := ServerClosed\<rparr>"]) simp
qed

definition live_net :: network where
  "live_net = no_network\<lparr>dial := (\<lambda>_. Some 7), hijack := Hijacked 3\<rparr>"

theorem Close_race_leaks_tunnel_witness:
  "\<exists>s. (close_step id)\<^sup>*\<^sup>*
      \<lparr>phase = Serving, px = \<lparr>Allow = [''.github.com''], tunnels = []\<rparr>, open_pairs = {}\<rparr> s \<and>
    phase s = ServerClosed \<and> (3, 7) \<in> open_pairs s"
proof -
  have "Permits id [''.github.com''] ''github.com:443''" by code_simp
  then have "tunnel id live_net \<lparr>Allow = [''.github.com''], tunnels = []\<rparr> (connect_to ''github.com:443'') =
    (\<lparr>Allow = [''.github.com''], tunnels = [(3, 7)]\<rparr>, Established (3, 7), [Dialed ''github.com:443''])"
    by (simp add: tunnel_def connect_to_def live_net_def no_network_def)
  then show ?thesis by (rule Close_race_leaks_tunnel)
qed

end
