(* ===== verification/Lease.thy ===== *)
theory Lease
  imports Registry
begin

text \<open>
  \<open>internal/run/lease.go\<close>: the writable-takeover lease of a run and the fence in front of exec and
  file writes. Part one is the code, one definition per function. Part two is the daemon's
  concurrency: a step relation whose steps are the critical sections of these functions, of
  create, destroy and reap, in any order, with ghost state for the sessions in flight and the
  grants handed out. Its invariant gives the fencing guarantees the comments of the file promise.
\<close>

section \<open>The code\<close>

definition activeLease :: "Run \<Rightarrow> time \<Rightarrow> LeaseState option" where
  "activeLease run now =
     (case Lease run of
        None \<Rightarrow> None
      | Some l \<Rightarrow> if \<not> now < LeaseExpiresAt l then None else Some l)"

text \<open>\<open>None\<close> is the nil error.\<close>

definition checkFence :: "Run \<Rightarrow> LeaseCredential \<Rightarrow> time \<Rightarrow> run_error option" where
  "checkFence run cred now =
     (case activeLease run now of
        None \<Rightarrow> None
      | Some lease \<Rightarrow>
          if Owner cred = Holder lease \<and> CredGeneration cred = Generation lease then None
          else Some ErrLeaseHeld)"

definition lease_args :: "string \<Rightarrow> duration \<Rightarrow> run_error option" where
  "lease_args owner ttl =
     (if TrimSpace owner = [] then Some (ErrBadRequest LeaseOwnerRequired)
      else if ttl \<le> 0 \<or> ttl > MaxTTL then Some (ErrBadRequest LeaseTTLRange)
      else None)"

definition AcquireLease :: "time \<Rightarrow> string \<Rightarrow> string \<Rightarrow> duration \<Rightarrow> registry \<Rightarrow>
    registry \<times> (run_error + u64 \<times> time)" where
  "AcquireLease now runID owner ttl m =
     (case lease_args owner ttl of
        Some e \<Rightarrow> (m, Inl e)
      | None \<Rightarrow>
          (case m runID of
             None \<Rightarrow> (m, Inl ErrNotFound)
           | Some current \<Rightarrow>
               if (case activeLease current now of None \<Rightarrow> False | Some lease \<Rightarrow> Holder lease \<noteq> owner)
               then (m, Inl ErrLeaseHeld)
               else if execs current > 0 then (m, Inl ErrBusy)
               else
                 let gen = leaseGen current + 1; expires = now + ttl
                 in (m(runID \<mapsto> current\<lparr>leaseGen := gen,
                       Lease := Some \<lparr>Holder = owner, Generation = gen, LeaseExpiresAt = expires\<rparr>\<rparr>),
                     Inr (gen, expires))))"

text \<open>The clock is read twice, first for the check, then for the new expiry.\<close>

definition RenewLease :: "time \<Rightarrow> time \<Rightarrow> string \<Rightarrow> string \<Rightarrow> u64 \<Rightarrow> duration \<Rightarrow> registry \<Rightarrow>
    registry \<times> (run_error + time)" where
  "RenewLease now now' runID owner generation ttl m =
     (case lease_args owner ttl of
        Some e \<Rightarrow> (m, Inl e)
      | None \<Rightarrow>
          (case m runID of
             None \<Rightarrow> (m, Inl ErrNotFound)
           | Some current \<Rightarrow>
               (case activeLease current now of
                  None \<Rightarrow> (m, Inl ErrLeaseSuperseded)
                | Some lease \<Rightarrow>
                    if Holder lease \<noteq> owner \<or> Generation lease \<noteq> generation
                    then (m, Inl ErrLeaseSuperseded)
                    else
                      let expires = now' + ttl
                      in (m(runID \<mapsto> current\<lparr>Lease :=
                            Some \<lparr>Holder = owner, Generation = generation, LeaseExpiresAt = expires\<rparr>\<rparr>),
                          Inr expires))))"

definition ReleaseLease :: "string \<Rightarrow> string \<Rightarrow> u64 \<Rightarrow> registry \<Rightarrow> registry \<times> (run_error + unit)" where
  "ReleaseLease runID owner generation m =
     (if TrimSpace owner = [] then (m, Inl (ErrBadRequest LeaseOwnerRequired))
      else
        case m runID of
          None \<Rightarrow> (m, Inl ErrNotFound)
        | Some current \<Rightarrow>
            (case Lease current of
               None \<Rightarrow> (m, Inl ErrLeaseSuperseded)
             | Some lease \<Rightarrow>
                 if Holder lease \<noteq> owner \<or> Generation lease \<noteq> generation
                 then (m, Inl ErrLeaseSuperseded)
                 else (m(runID \<mapsto> current\<lparr>Lease := None\<rparr>), Inr ())))"

record ExecSession =
  sess_run :: string
  sess_container :: string

definition BeginExec :: "time \<Rightarrow> string \<Rightarrow> LeaseCredential \<Rightarrow> registry \<Rightarrow>
    registry \<times> (run_error + ExecSession)" where
  "BeginExec now runID cred m =
     (case m runID of
        None \<Rightarrow> (m, Inl ErrNotFound)
      | Some current \<Rightarrow>
          (case checkFence current cred now of
             Some e \<Rightarrow> (m, Inl e)
           | None \<Rightarrow>
               (m(runID \<mapsto> current\<lparr>execs := execs current + 1\<rparr>),
                Inr \<lparr>sess_run = runID, sess_container = ContainerID current\<rparr>)))"

definition finishExec :: "string \<Rightarrow> registry \<Rightarrow> registry" where
  "finishExec runID m =
     (case m runID of
        None \<Rightarrow> m
      | Some current \<Rightarrow>
          if execs current > 0 then m(runID \<mapsto> current\<lparr>execs := execs current - 1\<rparr>) else m)"

text \<open>
  A runtime call takes time, in which other operations change the registry: \<open>call\<close> is given the
  container and the registry at its start and returns the registry at its end with its result.
\<close>

definition ExecSession_Exec :: "(string \<Rightarrow> registry \<Rightarrow> registry \<times> 'r) \<Rightarrow> ExecSession \<Rightarrow> registry \<Rightarrow>
    registry \<times> 'r" where
  "ExecSession_Exec call s m =
     (let (m, result) = call (sess_container s) m in (finishExec (sess_run s) m, result))"

definition Abandon :: "ExecSession \<Rightarrow> registry \<Rightarrow> registry" where
  "Abandon s m = finishExec (sess_run s) m"

definition WriteFile :: "(string \<Rightarrow> registry \<Rightarrow> registry \<times> run_error option) \<Rightarrow> time \<Rightarrow> string \<Rightarrow>
    LeaseCredential \<Rightarrow> registry \<Rightarrow> registry \<times> run_error option" where
  "WriteFile call now runID cred m =
     (case m runID of
        None \<Rightarrow> (m, Some ErrNotFound)
      | Some current \<Rightarrow>
          (case checkFence current cred now of
             Some e \<Rightarrow> (m, Some e)
           | None \<Rightarrow>
               let m = m(runID \<mapsto> current\<lparr>execs := execs current + 1\<rparr>);
                   (m, err) = call (ContainerID current) m
               in (finishExec runID m, err)))"

definition ReadFile :: "(string \<Rightarrow> run_error + string) \<Rightarrow> string \<Rightarrow> registry \<Rightarrow> run_error + string" where
  "ReadFile call runID m =
     (case Get runID m of Inl e \<Rightarrow> Inl e | Inr current \<Rightarrow> call (ContainerID current))"

section \<open>The fence under concurrency\<close>

text \<open>
  A state of the daemon as far as leases go. \<open>dying\<close> holds the runs that a destroy or the reaper has
  taken out of the registry and whose container removal has not returned. \<open>inflight\<close>, \<open>grants\<close> (the
  newest first) and \<open>used\<close> are ghosts: the admitted sessions with the credential they came with,
  every grant ever made with its run, and every identifier ever minted.
\<close>

record world =
  reg :: registry
  dying :: registry
  clock :: time
  inflight :: "(ExecSession \<times> LeaseCredential) list"
  grants :: "(string \<times> LeaseCredential) list"
  used :: "string set"

definition world0 :: "time \<Rightarrow> world" where
  "world0 now = \<lparr>reg = Map.empty, dying = Map.empty, clock = now, inflight = [], grants = [], used = {}\<rparr>"

abbreviation cred :: "string \<Rightarrow> u64 \<Rightarrow> LeaseCredential" where
  "cred owner g \<equiv> \<lparr>Owner = owner, CredGeneration = g\<rparr>"

inductive lstep :: "world \<Rightarrow> world \<Rightarrow> bool" where
  tick: "clock w \<le> t \<Longrightarrow> lstep w (w\<lparr>clock := t\<rparr>)"
| create: "i \<notin> used w \<Longrightarrow> Lease r = None \<Longrightarrow> leaseGen r = 0 \<Longrightarrow> execs r = 0 \<Longrightarrow>
     lstep w (w\<lparr>reg := (reg w)(i \<mapsto> r), used := insert i (used w)\<rparr>)"
| begin_exec: "BeginExec (clock w) i c (reg w) = (m, Inr s) \<Longrightarrow>
     lstep w (w\<lparr>reg := m, inflight := (s, c) # inflight w\<rparr>)"
| finish: "(s, c) \<in> set (inflight w) \<Longrightarrow>
     lstep w (w\<lparr>reg := finishExec (sess_run s) (reg w), inflight := remove1 (s, c) (inflight w)\<rparr>)"
| acquire: "AcquireLease (clock w) i owner ttl (reg w) = (m, Inr (g, expires)) \<Longrightarrow>
     lstep w (w\<lparr>reg := m, grants := (i, cred owner g) # grants w\<rparr>)"
| renew: "clock w \<le> t \<Longrightarrow> RenewLease (clock w) t i owner g ttl (reg w) = (m, Inr expires) \<Longrightarrow>
     lstep w (w\<lparr>reg := m, clock := t\<rparr>)"
| release: "ReleaseLease i owner g (reg w) = (m, Inr ()) \<Longrightarrow> lstep w (w\<lparr>reg := m\<rparr>)"
| untrack: "reg w i = Some r \<Longrightarrow>
     lstep w (w\<lparr>reg := (reg w)(i := None), dying := (dying w)(i \<mapsto> r)\<rparr>)"
| retrack: "dying w i = Some r \<Longrightarrow>
     lstep w (w\<lparr>reg := (reg w)(i \<mapsto> r), dying := (dying w)(i := None)\<rparr>)"
| gone: "dying w i = Some r \<Longrightarrow> lstep w (w\<lparr>dying := (dying w)(i := None)\<rparr>)"

inductive_cases lstep_cases: "lstep w w'"

abbreviation lsteps :: "world \<Rightarrow> world \<Rightarrow> bool" where
  "lsteps \<equiv> lstep\<^sup>*\<^sup>*"

definition sessions :: "string \<Rightarrow> world \<Rightarrow> (ExecSession \<times> LeaseCredential) list" where
  "sessions i w = filter (\<lambda>x. sess_run (fst x) = i) (inflight w)"

definition grants_of :: "string \<Rightarrow> world \<Rightarrow> (string \<times> LeaseCredential) list" where
  "grants_of i w = filter (\<lambda>x. fst x = i) (grants w)"

definition held :: "world \<Rightarrow> registry" where
  "held w = dying w ++ reg w"

subsection \<open>What holds of one run\<close>

text \<open>The grants of a run are numbered 1, 2, and so on, modulo the width of the counter.\<close>

fun numbered :: "(string \<times> LeaseCredential) list \<Rightarrow> bool" where
  "numbered [] = True"
| "numbered (g # gs) \<longleftrightarrow> CredGeneration (snd g) = of_nat (Suc (length gs)) \<and> numbered gs"

definition run_ok :: "time \<Rightarrow> (ExecSession \<times> LeaseCredential) list \<Rightarrow> (string \<times> LeaseCredential) list \<Rightarrow>
    Run \<Rightarrow> bool" where
  "run_ok now ss gs r \<longleftrightarrow>
     int (length ss) \<le> execs r \<and> leaseGen r = of_nat (length gs) \<and>
     (\<forall>l. Lease r = Some l \<longrightarrow> gs \<noteq> [] \<and> snd (hd gs) = cred (Holder l) (Generation l)) \<and>
     (\<forall>l. activeLease r now = Some l \<longrightarrow> snd ` set ss \<subseteq> {cred (Holder l) (Generation l)})"

lemma activeLease_Some:
  "activeLease r now = Some l \<longleftrightarrow> Lease r = Some l \<and> now < LeaseExpiresAt l"
  by (auto simp: activeLease_def split: option.splits if_splits)

lemma activeLease_None:
  "activeLease r now = None \<longleftrightarrow> (\<forall>l. Lease r = Some l \<longrightarrow> LeaseExpiresAt l \<le> now)"
  by (auto simp: activeLease_def split: option.splits)

lemma checkFence_None:
  "checkFence r c now = None \<longleftrightarrow> (\<forall>l. activeLease r now = Some l \<longrightarrow> c = cred (Holder l) (Generation l))"
  by (cases c) (auto simp: checkFence_def split: option.splits)

lemma checkFence_Some:
  "checkFence r c now = Some e \<longleftrightarrow>
     e = ErrLeaseHeld \<and> (\<exists>l. activeLease r now = Some l \<and> c \<noteq> cred (Holder l) (Generation l))"
  by (cases c) (auto simp: checkFence_def split: option.splits)

lemmas fence_simps = activeLease_Some activeLease_None checkFence_None checkFence_Some

lemma run_ok_tick: "run_ok now ss gs r \<Longrightarrow> now \<le> t \<Longrightarrow> run_ok t ss gs r"
  by (fastforce simp: run_ok_def activeLease_Some)

lemma run_ok_new: "Lease r = None \<Longrightarrow> leaseGen r = 0 \<Longrightarrow> execs r = 0 \<Longrightarrow> run_ok now [] [] r"
  by (simp add: run_ok_def activeLease_Some)

lemma run_ok_begin:
  "run_ok now ss gs r \<Longrightarrow> checkFence r c now = None \<Longrightarrow>
     run_ok now ((s, c) # ss) gs (r\<lparr>execs := execs r + 1\<rparr>)"
  by (auto simp: run_ok_def fence_simps)

lemma run_ok_drop: "run_ok now ss gs r \<Longrightarrow> run_ok now (remove1 x ss) gs r"
  using set_remove1_subset [of x ss] by (fastforce simp: run_ok_def length_remove1)

lemma run_ok_finish:
  "run_ok now ss gs r \<Longrightarrow> x \<in> set ss \<Longrightarrow> run_ok now (remove1 x ss) gs (r\<lparr>execs := execs r - 1\<rparr>)"
proof -
  assume r: "run_ok now ss gs r" and x: "x \<in> set ss"
  have "length (remove1 x ss) = length ss - 1" using x by (simp add: length_remove1)
  then have "int (length (remove1 x ss)) = int (length ss) - 1"
    using length_pos_if_in_set [OF x] by linarith
  moreover have "snd ` set (remove1 x ss) \<subseteq> A" if "snd ` set ss \<subseteq> A" for A
    using that set_remove1_subset [of x ss] by fast
  ultimately show ?thesis using r by (simp add: run_ok_def activeLease_Some)
qed

lemma run_ok_acquire:
  "run_ok now ss gs r \<Longrightarrow> execs r \<le> 0 \<Longrightarrow> g = leaseGen r + 1 \<Longrightarrow>
     run_ok now ss ((i, cred owner g) # gs)
       (r\<lparr>leaseGen := g, Lease := Some \<lparr>Holder = owner, Generation = g, LeaseExpiresAt = t\<rparr>\<rparr>)"
  by (cases ss) (auto simp: run_ok_def fence_simps)

lemma run_ok_renew:
  "run_ok now ss gs r \<Longrightarrow> activeLease r now = Some l \<Longrightarrow> now \<le> t \<Longrightarrow>
     run_ok t ss gs (r\<lparr>Lease := Some \<lparr>Holder = Holder l, Generation = Generation l, LeaseExpiresAt = t'\<rparr>\<rparr>)"
  by (auto simp: run_ok_def fence_simps)

lemma run_ok_release: "run_ok now ss gs r \<Longrightarrow> run_ok now ss gs (r\<lparr>Lease := None\<rparr>)"
  by (simp add: run_ok_def fence_simps)

subsection \<open>What the operations come to when they succeed\<close>

lemma AcquireLease_Inr:
  "AcquireLease now i owner ttl m = (m', Inr (g, expires)) \<longleftrightarrow>
     (\<exists>r. m i = Some r \<and> lease_args owner ttl = None \<and>
        (\<forall>l. activeLease r now = Some l \<longrightarrow> Holder l = owner) \<and> execs r \<le> 0 \<and>
        g = leaseGen r + 1 \<and> expires = now + ttl \<and>
        m' = m(i \<mapsto> r\<lparr>leaseGen := g,
               Lease := Some \<lparr>Holder = owner, Generation = g, LeaseExpiresAt = expires\<rparr>\<rparr>))"
  by (auto simp: AcquireLease_def Let_def split: option.splits if_splits)

lemma RenewLease_Inr:
  "RenewLease now t i owner g ttl m = (m', Inr expires) \<longleftrightarrow>
     (\<exists>r l. m i = Some r \<and> lease_args owner ttl = None \<and> activeLease r now = Some l \<and>
        Holder l = owner \<and> Generation l = g \<and> expires = t + ttl \<and>
        m' = m(i \<mapsto> r\<lparr>Lease := Some \<lparr>Holder = owner, Generation = g, LeaseExpiresAt = expires\<rparr>\<rparr>))"
  by (auto simp: RenewLease_def Let_def split: option.splits if_splits)

lemma ReleaseLease_Inr:
  "ReleaseLease i owner g m = (m', Inr ()) \<longleftrightarrow>
     (\<exists>r l. m i = Some r \<and> TrimSpace owner \<noteq> [] \<and> Lease r = Some l \<and>
        Holder l = owner \<and> Generation l = g \<and> m' = m(i \<mapsto> r\<lparr>Lease := None\<rparr>))"
  by (auto simp: ReleaseLease_def split: option.splits if_splits)

lemma BeginExec_Inr:
  "BeginExec now i c m = (m', Inr s) \<longleftrightarrow>
     (\<exists>r. m i = Some r \<and> checkFence r c now = None \<and> m' = m(i \<mapsto> r\<lparr>execs := execs r + 1\<rparr>) \<and>
        s = \<lparr>sess_run = i, sess_container = ContainerID r\<rparr>)"
  by (auto simp: BeginExec_def split: option.splits)

lemmas op_simps = AcquireLease_Inr RenewLease_Inr ReleaseLease_Inr BeginExec_Inr

subsection \<open>The invariant\<close>

definition world_inv :: "world \<Rightarrow> bool" where
  "world_inv w \<longleftrightarrow>
     dom (reg w) \<inter> dom (dying w) = {} \<and> dom (held w) \<subseteq> used w \<and>
     (\<forall>x \<in> set (inflight w). sess_run (fst x) \<in> used w) \<and> fst ` set (grants w) \<subseteq> used w \<and>
     (\<forall>i. numbered (grants_of i w)) \<and>
     (\<forall>i r. held w i = Some r \<longrightarrow> run_ok (clock w) (sessions i w) (grants_of i w) r)"

lemma held_reg: "reg w i = Some r \<Longrightarrow> held w i = Some r"
  by (simp add: held_def)

lemma held_update [simp]: "held (w\<lparr>reg := (reg w)(i \<mapsto> r)\<rparr>) = (held w)(i \<mapsto> r)"
  by (simp add: held_def)

text \<open>
  An operation on one registered run changes nothing for any other run; this reduces the
  invariant to \<open>run_ok\<close> of the run.
\<close>

lemma world_inv_update:
  assumes inv: "world_inv w" and r: "reg w i = Some r"
    and ss: "\<And>j. j \<noteq> i \<Longrightarrow> sessions j w' = sessions j w"
    and gs: "\<And>j. j \<noteq> i \<Longrightarrow> grants_of j w' = grants_of j w"
    and w': "reg w' = (reg w)(i \<mapsto> r')" "dying w' = dying w" "used w' = used w" "clock w \<le> clock w'"
    and ids: "\<forall>x \<in> set (inflight w'). sess_run (fst x) \<in> used w" "fst ` set (grants w') \<subseteq> used w"
    and num: "numbered (grants_of i w) \<Longrightarrow> numbered (grants_of i w')"
    and ok: "run_ok (clock w) (sessions i w) (grants_of i w) r \<Longrightarrow>
      run_ok (clock w') (sessions i w') (grants_of i w') r'"
  shows "world_inv w'"
proof -
  have h: "held w' = (held w)(i \<mapsto> r')" using w' by (simp add: held_def)
  have "numbered (grants_of j w')" for j
    using inv num gs [of j] by (cases "j = i") (auto simp: world_inv_def)
  moreover have "run_ok (clock w') (sessions j w') (grants_of j w') q" if "held w' j = Some q" for j q
  proof (cases "j = i")
    case True
    then show ?thesis using that inv ok held_reg [OF r] h by (auto simp: world_inv_def)
  next
    case False
    then show ?thesis
      using that inv h ss gs run_ok_tick [OF _ w'(4)] by (auto simp: world_inv_def)
  qed
  moreover have "i \<in> dom (held w)" using held_reg [OF r] by blast
  ultimately show ?thesis
    using inv h w' ids r by (auto simp: world_inv_def)
qed

lemma sessions_of_unused:
  assumes "world_inv w" and "i \<notin> used w"
  shows "sessions i w = []" and "grants_of i w = []" and "dying w i = None"
  using assms unfolding world_inv_def sessions_def grants_of_def held_def filter_empty_conv
  by (blast, blast, auto simp: map_add_def dom_def split: option.splits)

lemma filter_remove1: "filter P (remove1 x xs) = (if P x then remove1 x (filter P xs) else filter P xs)"
  by (induction xs) auto

lemma world_inv_finish:
  assumes inv: "world_inv w" and x: "(s, c) \<in> set (inflight w)"
  shows "world_inv (w\<lparr>reg := finishExec (sess_run s) (reg w), inflight := remove1 (s, c) (inflight w)\<rparr>)"
    (is "world_inv ?w'")
proof -
  let ?i = "sess_run s"
  have xs: "(s, c) \<in> set (sessions ?i w)" using x by (simp add: sessions_def)
  have ss: "sessions j ?w' = (if j = ?i then remove1 (s, c) (sessions j w) else sessions j w)" for j
    by (simp add: sessions_def filter_remove1)
  show ?thesis
  proof (cases "reg w ?i")
    case None
    have "run_ok (clock w) (sessions j ?w') (grants_of j w) r" if "held w j = Some r" for j r
      using inv that ss [of j] run_ok_drop by (auto simp: world_inv_def)
    moreover have "held ?w' = held w" using None by (simp add: held_def finishExec_def)
    ultimately show ?thesis
      using inv None notin_set_remove1 [of _ "inflight w" "(s, c)"]
      by (auto simp: world_inv_def grants_of_def finishExec_def)
  next
    case (Some r)
    have "0 < execs r"
    proof -
      have "run_ok (clock w) (sessions ?i w) (grants_of ?i w) r"
        using inv held_reg [OF Some] by (simp add: world_inv_def)
      then have "int (length (sessions ?i w)) \<le> execs r" by (simp add: run_ok_def)
      then show ?thesis using length_pos_if_in_set [OF xs] by linarith
    qed
    then have m: "finishExec ?i (reg w) = (reg w)(?i \<mapsto> r\<lparr>execs := execs r - 1\<rparr>)"
      by (simp add: finishExec_def Some)
    show ?thesis
    proof (rule world_inv_update [OF inv Some])
      show "\<forall>x \<in> set (inflight ?w'). sess_run (fst x) \<in> used w"
        using inv notin_set_remove1 [of _ "inflight w" "(s, c)"] by (auto simp: world_inv_def)
      show "fst ` set (grants ?w') \<subseteq> used w" using inv by (simp add: world_inv_def)
      show "run_ok (clock ?w') (sessions ?i ?w') (grants_of ?i ?w') (r\<lparr>execs := execs r - 1\<rparr>)"
        if "run_ok (clock w) (sessions ?i w) (grants_of ?i w) r"
        using run_ok_finish [OF that xs] ss [of ?i] by (simp add: grants_of_def)
    qed (simp_all only: ss, simp_all add: m grants_of_def)
  qed
qed

lemma world_invD:
  assumes "world_inv w"
  shows "dom (reg w) \<inter> dom (dying w) = {}" and "dom (held w) \<subseteq> used w"
    and "\<And>x. x \<in> set (inflight w) \<Longrightarrow> sess_run (fst x) \<in> used w" and "fst ` set (grants w) \<subseteq> used w"
    and "\<And>i. numbered (grants_of i w)"
    and "\<And>i r. held w i = Some r \<Longrightarrow> run_ok (clock w) (sessions i w) (grants_of i w) r"
  using assms by (simp_all add: world_inv_def)

text \<open>Steps that touch neither a run nor the ghosts: time passes, runs move or vanish.\<close>

lemma world_inv_sub:
  assumes inv: "world_inv w" and h: "held w' \<subseteq>\<^sub>m held w" and d: "dom (reg w') \<inter> dom (dying w') = {}"
    and w': "inflight w' = inflight w" "grants w' = grants w" "used w' = used w" "clock w \<le> clock w'"
  shows "world_inv w'"
proof -
  have s: "sessions i w' = sessions i w" "grants_of i w' = grants_of i w" for i
    using w' by (simp_all add: sessions_def grants_of_def)
  have "run_ok (clock w') (sessions i w') (grants_of i w') r" if "held w' i = Some r" for i r
  proof -
    have "held w i = Some r" using that h by (metis map_le_def domI)
    then show ?thesis unfolding s by (rule run_ok_tick [OF world_invD(6) [OF inv] w'(4)])
  qed
  moreover have "dom (held w') \<subseteq> used w'"
    using world_invD(2) [OF inv] map_le_implies_dom_le [OF h] w'(3) by blast
  ultimately show ?thesis
    using d world_invD(3-5) [OF inv] w' s by (simp add: world_inv_def)
qed

lemma world_inv_create:
  assumes inv: "world_inv w" and "i \<notin> used w" and "Lease r = None" "leaseGen r = 0" "execs r = 0"
  shows "world_inv (w\<lparr>reg := (reg w)(i \<mapsto> r), used := insert i (used w)\<rparr>)" (is "world_inv ?w'")
proof -
  note none = sessions_of_unused [OF inv assms(2)]
  have h: "held ?w' = (held w)(i \<mapsto> r)" by (simp add: held_def)
  have s: "sessions j ?w' = sessions j w" "grants_of j ?w' = grants_of j w" for j
    by (simp_all add: sessions_def grants_of_def)
  have "run_ok (clock w) (sessions j w) (grants_of j w) q" if "held ?w' j = Some q" for j q
  proof (cases "j = i")
    case True
    then show ?thesis using that none run_ok_new [OF assms(3-5)] by (simp add: h)
  next
    case False
    then show ?thesis using that world_invD(6) [OF inv] by (simp add: h)
  qed
  moreover have "dom (reg ?w') \<inter> dom (dying ?w') = {}"
    using world_invD(1) [OF inv] none(3) by auto
  moreover have "dom (held ?w') \<subseteq> used ?w'" using world_invD(2) [OF inv] by (auto simp: h)
  ultimately show ?thesis
    using world_invD(3-5) [OF inv] by (auto simp: world_inv_def s)
qed

lemma world_inv_op:
  assumes inv: "world_inv w" and r: "reg w i = Some r" and t: "clock w \<le> t"
    and ok: "run_ok (clock w) (sessions i w) (grants_of i w) r \<Longrightarrow>
      run_ok t (xs @ sessions i w) (gs @ grants_of i w) r'"
    and xs: "\<forall>x \<in> set xs. sess_run (fst x) = i" and gs: "\<forall>x \<in> set gs. fst x = i"
    and num: "numbered (grants_of i w) \<Longrightarrow> numbered (gs @ grants_of i w)"
  shows "world_inv (w\<lparr>reg := (reg w)(i \<mapsto> r'), clock := t, inflight := xs @ inflight w, grants := gs @ grants w\<rparr>)"
    (is "world_inv ?w'")
proof (rule world_inv_update [OF inv r])
  have i: "i \<in> used w" using held_reg [OF r] world_invD(2) [OF inv] by blast
  show "\<forall>x \<in> set (inflight ?w'). sess_run (fst x) \<in> used w"
    using i xs world_invD(3) [OF inv] by auto
  show "fst ` set (grants ?w') \<subseteq> used w" using i gs world_invD(4) [OF inv] by auto
  have f: "filter P (xs @ ys) = filter P ys" if "\<forall>x \<in> set xs. \<not> P x" for P and xs ys :: "'a list"
    using that by simp
  show "sessions j ?w' = sessions j w" if "j \<noteq> i" for j
    unfolding sessions_def using that xs by (simp add: f)
  show "grants_of j ?w' = grants_of j w" if "j \<noteq> i" for j
    unfolding grants_of_def using that gs by (simp add: f)
  have e: "sessions i ?w' = xs @ sessions i w" "grants_of i ?w' = gs @ grants_of i w"
    using xs gs by (simp_all add: sessions_def grants_of_def)
  show "numbered (grants_of i ?w')" if "numbered (grants_of i w)" unfolding e using that by (rule num)
  show "run_ok (clock ?w') (sessions i ?w') (grants_of i ?w') r'"
    if "run_ok (clock w) (sessions i w) (grants_of i w) r"
    unfolding e using ok [OF that] by simp
qed (use t in simp_all)

lemma lstep_inv: "lstep w w' \<Longrightarrow> world_inv w \<Longrightarrow> world_inv w'"
proof (induction rule: lstep.induct)
  case (tick w t)
  then show ?case
    using world_invD(1) by (intro world_inv_sub [OF tick.prems]) (simp_all add: held_def)
next
  case (create i w r)
  then show ?case by (simp add: world_inv_create)
next
  case (begin_exec w i c m s)
  then obtain r where r: "reg w i = Some r" "checkFence r c (clock w) = None"
    and m: "m = (reg w)(i \<mapsto> r\<lparr>execs := execs r + 1\<rparr>)" and s: "sess_run s = i"
    by (auto simp: BeginExec_Inr)
  have "world_inv (w\<lparr>reg := m, clock := clock w, inflight := [(s, c)] @ inflight w, grants := [] @ grants w\<rparr>)"
    unfolding m by (rule world_inv_op [OF begin_exec.prems r(1)]) (simp_all add: run_ok_begin r s)
  then show ?case by simp
next
  case (finish s c w)
  then show ?case by (simp add: world_inv_finish)
next
  case (acquire w i owner ttl m g expires)
  then obtain r where r: "reg w i = Some r" "execs r \<le> 0" "g = leaseGen r + 1"
    and m: "m = (reg w)(i \<mapsto> r\<lparr>leaseGen := g,
               Lease := Some \<lparr>Holder = owner, Generation = g, LeaseExpiresAt = expires\<rparr>\<rparr>)"
    by (auto simp: AcquireLease_Inr)
  have n: "leaseGen r = of_nat (length (grants_of i w))"
    using world_invD(6) [OF acquire.prems held_reg [OF r(1)]] by (simp add: run_ok_def)
  have "world_inv (w\<lparr>reg := m, clock := clock w, inflight := [] @ inflight w,
      grants := [(i, cred owner g)] @ grants w\<rparr>)"
    unfolding m by (rule world_inv_op [OF acquire.prems r(1)])
      (simp_all add: run_ok_acquire r n)
  then show ?case by simp
next
  case (renew w t i owner g ttl m expires)
  then obtain r l where r: "reg w i = Some r" "activeLease r (clock w) = Some l"
      "Holder l = owner" "Generation l = g"
    and m: "m = (reg w)(i \<mapsto> r\<lparr>Lease := Some \<lparr>Holder = owner, Generation = g, LeaseExpiresAt = expires\<rparr>\<rparr>)"
    by (auto simp: RenewLease_Inr)
  have "world_inv (w\<lparr>reg := m, clock := t, inflight := [] @ inflight w, grants := [] @ grants w\<rparr>)"
    unfolding m by (rule world_inv_op [OF renew.prems r(1) renew.hyps(1)])
      (use run_ok_renew [OF _ r(2) renew.hyps(1)] r in auto)
  then show ?case by simp
next
  case (release i owner g w m)
  then obtain r where r: "reg w i = Some r" and m: "m = (reg w)(i \<mapsto> r\<lparr>Lease := None\<rparr>)"
    by (auto simp: ReleaseLease_Inr)
  have "world_inv (w\<lparr>reg := m, clock := clock w, inflight := [] @ inflight w, grants := [] @ grants w\<rparr>)"
    unfolding m by (rule world_inv_op [OF release.prems r]) (simp_all add: run_ok_release)
  then show ?case by simp
next
  case (untrack w i r)
  then have "held (w\<lparr>reg := (reg w)(i := None), dying := (dying w)(i \<mapsto> r)\<rparr>) = held w"
    by (auto simp: held_def map_add_def fun_eq_iff split: option.splits)
  then show ?case
    using world_invD(1) [OF untrack.prems] by (intro world_inv_sub [OF untrack.prems]) auto
next
  case (retrack w i r)
  then have "reg w i = None" using world_invD(1) [OF retrack.prems] by blast
  then have "held (w\<lparr>reg := (reg w)(i \<mapsto> r), dying := (dying w)(i := None)\<rparr>) = held w"
    using retrack.hyps by (auto simp: held_def map_add_def fun_eq_iff split: option.splits)
  then show ?case
    using world_invD(1) [OF retrack.prems] by (intro world_inv_sub [OF retrack.prems]) auto
next
  case (gone w i r)
  have "held (w\<lparr>dying := (dying w)(i := None)\<rparr>) \<subseteq>\<^sub>m held w"
    by (auto simp: held_def map_le_def map_add_def split: option.splits if_splits)
  then show ?case
    using world_invD(1) [OF gone.prems] by (intro world_inv_sub [OF gone.prems]) auto
qed

lemma world0_inv: "world_inv (world0 t)"
  by (simp add: world_inv_def world0_def held_def sessions_def grants_of_def)

lemma lsteps_inv: "lsteps w w' \<Longrightarrow> world_inv w \<Longrightarrow> world_inv w'"
  by (induction rule: rtranclp_induct) (auto intro: lstep_inv)

lemma reachable_inv: "lsteps (world0 t) w \<Longrightarrow> world_inv w"
  by (rule lsteps_inv [OF _ world0_inv])

subsection \<open>Generations\<close>

lemma numbered_range:
  "numbered gs \<Longrightarrow> x \<in> set gs \<Longrightarrow> \<exists>k. CredGeneration (snd x) = of_nat k \<and> 0 < k \<and> k \<le> length gs"
proof (induction gs)
  case (Cons g gs)
  then show ?case by (cases "x = g") (auto intro: exI [of _ "Suc (length gs)"] le_SucI)
qed simp

lemma numbered_less:
  assumes "numbered gs" and "x \<in> set gs" and "length gs < n" and "n < 2 ^ 64"
  shows "CredGeneration (snd x) < of_nat n"
proof -
  obtain k where k: "CredGeneration (snd x) = of_nat k" "k \<le> length gs"
    using numbered_range [OF assms(1,2)] by blast
  have "unat (of_nat k :: u64) = k" and "unat (of_nat n :: u64) = n"
    using k(2) assms(3,4) by (simp_all add: unat_of_nat)
  then show ?thesis using k assms(3) by (simp add: word_less_nat_alt)
qed

lemma numbered_hd: "numbered gs \<Longrightarrow> gs \<noteq> [] \<Longrightarrow> CredGeneration (snd (hd gs)) = of_nat (length gs)"
  by (cases gs) auto

lemma grants_of_length: "length (grants_of i w) \<le> length (grants w)"
  by (simp add: grants_of_def)

lemma stale_generation:
  assumes inv: "world_inv w" and n: "length (grants w) < 2 ^ 64"
    and r: "reg w i = Some r" and l: "Lease r = Some l" and c: "c \<in> snd ` set (tl (grants_of i w))"
  shows "CredGeneration c < Generation l"
proof -
  let ?gs = "grants_of i w"
  have ok: "?gs \<noteq> []" "snd (hd ?gs) = cred (Holder l) (Generation l)"
    using world_invD(6) [OF inv held_reg [OF r]] l by (auto simp: run_ok_def)
  then obtain g gs where gs: "?gs = g # gs" by (cases ?gs) auto
  have num: "numbered (g # gs)" using world_invD(5) [OF inv, of i] gs by simp
  have "length ?gs < 2 ^ 64" using n grants_of_length [of i w] by (rule le_less_trans [rotated])
  then have "CredGeneration c < of_nat (length ?gs)"
    using numbered_less [of gs _ "length ?gs"] num c gs by auto
  then show ?thesis using numbered_hd [OF num] ok gs by simp
qed

section \<open>Properties\<close>

text \<open>
  C17. A takeover happens only between execs: in whatever order requests, time and teardowns
  interleave, when \<open>AcquireLease\<close> grants there is no admitted exec or write on the run and no
  unexpired lease of another owner, the lease runs for exactly the requested time, and its
  generation is greater than that of every earlier grant of the run.
\<close>

theorem AcquireLease_exclusive:
  assumes "lsteps (world0 t0) w" and "Suc (length (grants w)) < 2 ^ 64"
    and "AcquireLease (clock w) i owner ttl (reg w) = (m, Inr (g, expires))"
  shows "sessions i w = [] \<and>
    (\<exists>r. reg w i = Some r \<and> (\<forall>l. activeLease r (clock w) = Some l \<longrightarrow> Holder l = owner)) \<and>
    expires = clock w + ttl \<and> 0 < ttl \<and> ttl \<le> MaxTTL \<and>
    (\<forall>c. (i, c) \<in> set (grants w) \<longrightarrow> CredGeneration c < g)"
proof -
  have inv: "world_inv w" using assms(1) by (rule reachable_inv)
  obtain r where r: "reg w i = Some r" "execs r \<le> 0" "g = leaseGen r + 1" "expires = clock w + ttl"
    "lease_args owner ttl = None" "\<forall>l. activeLease r (clock w) = Some l \<longrightarrow> Holder l = owner"
    using assms(3) by (auto simp: AcquireLease_Inr)
  have ok: "int (length (sessions i w)) \<le> execs r" "leaseGen r = of_nat (length (grants_of i w))"
    using world_invD(6) [OF inv held_reg [OF r(1)]] by (auto simp: run_ok_def)
  have "length (sessions i w) = 0" using ok(1) r(2) by linarith
  moreover have "CredGeneration c < g" if "(i, c) \<in> set (grants w)" for c
  proof -
    have "(i, c) \<in> set (grants_of i w)" using that by (simp add: grants_of_def)
    moreover have "Suc (length (grants_of i w)) < 2 ^ 64"
      using assms(2) grants_of_length [of i w] by simp
    moreover have "g = of_nat (Suc (length (grants_of i w)))" using r(3) ok(2) by simp
    ultimately show ?thesis
      using numbered_less [OF world_invD(5) [OF inv, of i], of "(i, c)" "Suc (length (grants_of i w))"] by simp
  qed
  ultimately show ?thesis using r by (auto simp: lease_args_def split: if_splits)
qed

definition demo_run :: Run where
  "demo_run = \<lparr>ID = ''r1'', RunImage = ''alpine'', RunNetwork = NetworkNone, ContainerID = ''c1'', Warm = None,
     CacheDir = [], CachePath = [], CreatedAt = 0, ExpiresAt = 30 * minute, Lease = None, leaseGen = 0, execs = 0\<rparr>"

definition demo_world :: world where
  "demo_world = (world0 0)\<lparr>reg := [''r1'' \<mapsto> demo_run], used := {''r1''}\<rparr>"

lemma demo_reach: "lsteps (world0 0) demo_world"
  using create [of "''r1''" "world0 0" demo_run] by (simp add: demo_world_def demo_run_def world0_def)

lemma demo_args: "lease_args ''alice'' minute = None"
proof -
  have "TrimSpace ''alice'' \<noteq> []" by code_simp
  then show ?thesis by (simp add: lease_args_def MaxTTL_def)
qed

definition demo_grant :: LeaseState where
  "demo_grant = \<lparr>Holder = ''alice'', Generation = 1, LeaseExpiresAt = minute\<rparr>"

definition demo_leased :: world where
  "demo_leased = demo_world\<lparr>reg := [''r1'' \<mapsto> demo_run\<lparr>leaseGen := 1, Lease := Some demo_grant\<rparr>],
     grants := [(''r1'', cred ''alice'' 1)]\<rparr>"

lemma demo_acquire:
  "AcquireLease 0 ''r1'' ''alice'' minute (reg demo_world) = (reg demo_leased, Inr (1, minute))"
  unfolding AcquireLease_Inr
  by (rule exI [of _ demo_run])
    (simp add: demo_args [simplified] demo_leased_def demo_grant_def demo_world_def demo_run_def activeLease_Some)

lemma demo_leased_reach: "lsteps (world0 0) demo_leased"
proof -
  have "lstep demo_world (demo_world\<lparr>reg := reg demo_leased, grants := (''r1'', cred ''alice'' 1) # grants demo_world\<rparr>)"
    using demo_acquire by (intro acquire [where expires = minute and ttl = minute]) (simp add: demo_world_def world0_def)
  moreover have "demo_world\<lparr>reg := reg demo_leased, grants := (''r1'', cred ''alice'' 1) # grants demo_world\<rparr> = demo_leased"
    by (simp add: demo_leased_def demo_world_def world0_def)
  ultimately show ?thesis using demo_reach by simp
qed

theorem AcquireLease_exclusive_witness: "sessions ''r1'' demo_world = [] \<and> (1 :: u64) > 0"
proof -
  have "Suc (length (grants demo_world)) < 2 ^ 64" and "clock demo_world = 0"
    by (simp_all add: demo_world_def world0_def)
  then show ?thesis
    using AcquireLease_exclusive [OF demo_reach, of "''r1''" "''alice''" minute] demo_acquire by simp
qed

text \<open>
  C3. The fence: at every moment, while a run (registered, or being destroyed) has an unexpired
  lease, every exec and write in flight on it was admitted with exactly that lease's owner and
  generation. No interleaving, renewal, expiry or failed destroy lets another caller's in.
\<close>

theorem fence_holds:
  assumes "lsteps (world0 t0) w" and "reg w i = Some r \<or> dying w i = Some r"
    and "activeLease r (clock w) = Some l" and "(s, c) \<in> set (inflight w)" and "sess_run s = i"
  shows "c = cred (Holder l) (Generation l)"
proof -
  have inv: "world_inv w" using assms(1) by (rule reachable_inv)
  have "held w i = Some r"
    using assms(2) world_invD(1) [OF inv] by (auto simp: held_def map_add_Some_iff)
  then have "snd ` set (sessions i w) \<subseteq> {cred (Holder l) (Generation l)}"
    using world_invD(6) [OF inv] assms(3) by (simp add: run_ok_def)
  moreover have "(s, c) \<in> set (sessions i w)" using assms(4,5) by (simp add: sessions_def)
  ultimately show ?thesis by force
qed

definition demo_session :: ExecSession where
  "demo_session = \<lparr>sess_run = ''r1'', sess_container = ''c1''\<rparr>"

definition demo_busy :: world where
  "demo_busy = demo_leased\<lparr>
     reg := [''r1'' \<mapsto> demo_run\<lparr>leaseGen := 1, Lease := Some demo_grant, execs := 1\<rparr>],
     inflight := [(demo_session, cred ''alice'' 1)]\<rparr>"

lemma demo_busy_reach: "lsteps (world0 0) demo_busy"
proof -
  let ?m = "[''r1'' \<mapsto> demo_run\<lparr>leaseGen := 1, Lease := Some demo_grant, execs := 1\<rparr>]"
  have "BeginExec (clock demo_leased) ''r1'' (cred ''alice'' 1) (reg demo_leased) = (?m, Inr demo_session)"
    by (simp add: BeginExec_def checkFence_def activeLease_def demo_leased_def demo_world_def world0_def
        demo_run_def demo_grant_def demo_session_def)
  then have "lstep demo_leased (demo_leased\<lparr>reg := ?m,
      inflight := (demo_session, cred ''alice'' 1) # inflight demo_leased\<rparr>)"
    by (rule begin_exec)
  moreover have "demo_leased\<lparr>reg := ?m, inflight := (demo_session, cred ''alice'' 1) # inflight demo_leased\<rparr> =
      demo_busy"
    by (simp add: demo_busy_def demo_leased_def demo_world_def world0_def)
  ultimately show ?thesis using demo_leased_reach by simp
qed

theorem fence_holds_witness:
  "inflight demo_busy = [(demo_session, cred (Holder demo_grant) (Generation demo_grant))]"
proof -
  have "reg demo_busy ''r1'' = Some (demo_run\<lparr>leaseGen := 1, Lease := Some demo_grant, execs := 1\<rparr>)"
    and "activeLease (demo_run\<lparr>leaseGen := 1, Lease := Some demo_grant, execs := 1\<rparr>) (clock demo_busy) =
      Some demo_grant"
    and "(demo_session, cred ''alice'' 1) \<in> set (inflight demo_busy)" and "sess_run demo_session = ''r1''"
    by (simp_all add: demo_busy_def activeLease_def demo_grant_def demo_leased_def demo_world_def world0_def
        demo_session_def)
  from fence_holds [OF demo_busy_reach disjI1 [OF this(1)] this(2-4)]
  show ?thesis by (simp add: demo_busy_def)
qed

text \<open>
  A superseded credential is dead: whatever happened since, a credential of a run's history
  other than its latest grant is refused renewal and release with \<open>ErrLeaseSuperseded\<close>, and
  refused at the fence with \<open>ErrLeaseHeld\<close> while a lease is active; the registry does not change.
  The bound is on the number of grants, so that the 64-bit counter has not wrapped.
\<close>

theorem stale_credential_dead:
  assumes "lsteps (world0 t0) w" and "length (grants w) < 2 ^ 64"
    and "reg w i = Some r" and "cred owner g \<in> snd ` set (tl (grants_of i w))"
    and "lease_args owner ttl = None"
  shows "RenewLease (clock w) t i owner g ttl (reg w) = (reg w, Inl ErrLeaseSuperseded) \<and>
    ReleaseLease i owner g (reg w) = (reg w, Inl ErrLeaseSuperseded) \<and>
    (activeLease r (clock w) \<noteq> None \<longrightarrow>
       BeginExec (clock w) i (cred owner g) (reg w) = (reg w, Inl ErrLeaseHeld))"
proof -
  have inv: "world_inv w" using assms(1) by (rule reachable_inv)
  have "Generation l \<noteq> g" if "Lease r = Some l" for l
    using stale_generation [OF inv assms(2,3) that assms(4)] by auto
  moreover have "TrimSpace owner \<noteq> []" using assms(5) by (auto simp: lease_args_def split: if_splits)
  ultimately show ?thesis
    using assms(3,5)
    by (auto simp: RenewLease_def ReleaseLease_def BeginExec_def checkFence_def activeLease_def
        split: option.splits if_splits)
qed

definition demo_regrant :: LeaseState where
  "demo_regrant = \<lparr>Holder = ''alice'', Generation = 2, LeaseExpiresAt = minute\<rparr>"

definition demo_regranted :: world where
  "demo_regranted = demo_leased\<lparr>reg := [''r1'' \<mapsto> demo_run\<lparr>leaseGen := 2, Lease := Some demo_regrant\<rparr>],
     grants := [(''r1'', cred ''alice'' 2), (''r1'', cred ''alice'' 1)]\<rparr>"

lemma demo_regranted_reach: "lsteps (world0 0) demo_regranted"
proof -
  have "AcquireLease (clock demo_leased) ''r1'' ''alice'' minute (reg demo_leased) =
      (reg demo_regranted, Inr (2, minute))"
    unfolding AcquireLease_Inr
    by (rule exI [of _ "demo_run\<lparr>leaseGen := 1, Lease := Some demo_grant\<rparr>"])
      (simp add: demo_args [simplified] demo_leased_def demo_grant_def demo_world_def demo_run_def
        demo_regranted_def demo_regrant_def activeLease_Some world0_def)
  from acquire [OF this] have "lstep demo_leased demo_regranted"
    by (simp add: demo_regranted_def demo_leased_def)
  then show ?thesis using demo_leased_reach by simp
qed

theorem stale_credential_dead_witness:
  "ReleaseLease ''r1'' ''alice'' 1 (reg demo_regranted) = (reg demo_regranted, Inl ErrLeaseSuperseded)"
proof -
  have "length (grants demo_regranted) < 2 ^ 64" and "reg demo_regranted ''r1'' =
      Some (demo_run\<lparr>leaseGen := 2, Lease := Some demo_regrant\<rparr>)"
    and "cred ''alice'' 1 \<in> snd ` set (tl (grants_of ''r1'' demo_regranted))"
    by (simp_all add: demo_regranted_def grants_of_def)
  from stale_credential_dead [OF demo_regranted_reach this demo_args] show ?thesis by simp
qed

text \<open>
  C37. A file write is fenced exactly like an exec: \<open>WriteFile\<close> is \<open>BeginExec\<close> followed by an
  admitted session's \<open>Exec\<close>, whatever the runtime call does and whatever happens during it.
\<close>

theorem WriteFile_fenced_like_exec:
  "WriteFile call now i c m =
     (case BeginExec now i c m of
        (m', Inl e) \<Rightarrow> (m', Some e)
      | (m', Inr s) \<Rightarrow> ExecSession_Exec call s m')"
  by (simp add: WriteFile_def BeginExec_def ExecSession_Exec_def split: option.splits)

text \<open>Steps of a daemon that is destroying nothing.\<close>

definition quiet_step :: "world \<Rightarrow> world \<Rightarrow> bool" where
  "quiet_step w w' \<longleftrightarrow> lstep w w' \<and> dying w = Map.empty \<and> dying w' = Map.empty"

lemma quiet_exact:
  "quiet_step\<^sup>*\<^sup>* (world0 t0) w \<Longrightarrow> reg w i = Some r \<Longrightarrow> execs r = int (length (sessions i w))"
proof (induction arbitrary: i r rule: rtranclp_induct)
  case base
  then show ?case by (simp add: world0_def)
next
  case (step w w')
  have inv: "world_inv w"
  proof -
    have "lsteps (world0 t0) w" using step.hyps(1) by (rule rtranclp_mono [THEN predicate2D, rotated])
        (auto simp: quiet_step_def)
    then show ?thesis by (rule reachable_inv)
  qed
  have "lstep w w'" and d: "dying w = Map.empty" "dying w' = Map.empty"
    using step.hyps(2) by (auto simp: quiet_step_def)
  then show ?case
    using step.prems
  proof (cases rule: lstep.cases)
    case (create j q)
    then show ?thesis
      using step sessions_of_unused(1) [OF inv] by (auto simp: sessions_def split: if_splits)
  next
    case (finish s c)
    have x: "(s, c) \<in> set (sessions (sess_run s) w)" using finish by (simp add: sessions_def)
    have len: "int (length (remove1 (s, c) (sessions (sess_run s) w))) = int (length (sessions (sess_run s) w)) - 1"
      using x length_pos_if_in_set [OF x] by (simp add: length_remove1 Suc_le_eq flip: length_greater_0_conv)
    show ?thesis
      using finish step.prems step.IH [of "sess_run s"] step.IH [of i] len length_pos_if_in_set [OF x]
      by (auto simp: finishExec_def sessions_def filter_remove1 split: option.splits if_splits)
  qed (use step.IH in \<open>auto simp: op_simps sessions_def split: if_splits\<close>)
qed



section \<open>A decrement that is lost\<close>

text \<open>
  \<open>Destroy\<close> takes the run out of the registry before it removes the container and puts it back when
  the removal fails. A session that ends in between finds no run, and \<open>finishExec\<close> drops its
  decrement: the counter stays above the number of sessions for good.
\<close>

definition stuck :: "string \<Rightarrow> world \<Rightarrow> bool" where
  "stuck i w \<longleftrightarrow> i \<in> used w \<and> (\<forall>r. held w i = Some r \<longrightarrow> int (length (sessions i w)) < execs r)"

lemma stuck_step: "lstep w w' \<Longrightarrow> world_inv w \<Longrightarrow> stuck i w \<Longrightarrow> stuck i w'"
proof (induction rule: lstep.induct)
  case (finish s c w)
  have "length (remove1 (s, c) (sessions i w)) \<le> length (sessions i w)" by (simp add: length_remove1)
  moreover have "int (length (remove1 (s, c) (sessions i w))) = int (length (sessions i w)) - 1"
    if "sess_run s = i"
  proof -
    have x: "(s, c) \<in> set (sessions i w)" using finish.hyps that by (simp add: sessions_def)
    show ?thesis using x length_pos_if_in_set [OF x] by (simp add: length_remove1 Suc_le_eq flip: length_greater_0_conv)
  qed
  ultimately show ?case
    using finish.prems(2) held_reg [of w "sess_run s"]
    by (auto simp: stuck_def finishExec_def sessions_def filter_remove1 held_def map_add_Some_iff
        split: option.splits if_splits)
next
  case (untrack w j r)
  then show ?case by (auto simp: stuck_def held_def sessions_def map_add_Some_iff split: if_splits)
next
  case (retrack w j r)
  then have "reg w j = None" using world_invD(1) [OF retrack.prems(1)] by blast
  then show ?case
    using retrack by (auto simp: stuck_def held_def sessions_def map_add_Some_iff split: if_splits)
next
  case (gone w j r)
  then show ?case by (auto simp: stuck_def held_def sessions_def map_add_Some_iff split: if_splits)
qed (auto simp: stuck_def op_simps sessions_def held_def map_add_Some_iff split: if_splits)

lemma stuck_steps: "lsteps w w' \<Longrightarrow> world_inv w \<Longrightarrow> stuck i w \<Longrightarrow> stuck i w'"
  by (induction rule: rtranclp_induct) (auto intro: stuck_step lsteps_inv)

lemma stuck_busy:
  assumes "stuck i w" shows "isl (snd (AcquireLease t i owner ttl (reg w)))"
proof -
  have "0 < execs r" if "reg w i = Some r" for r
    using assms held_reg [OF that] by (auto simp: stuck_def)
  then show ?thesis
    by (auto simp: AcquireLease_def Let_def split: option.splits)
qed

text \<open>
  If a run is being executed in, a destroy that fails while that exec ends leaves the run
  registered and without any session, yet no lease is ever granted on it again.
\<close>

theorem lost_decrement:
  assumes "lsteps (world0 t0) w" and "reg w i = Some r" and "sessions i w = [(s, c)]"
  shows "\<exists>w'. lsteps w w' \<and> reg w' i = Some r \<and> sessions i w' = [] \<and>
    (\<forall>w'' owner ttl. lsteps w' w'' \<longrightarrow>
       isl (snd (AcquireLease (clock w'') i owner ttl (reg w''))))"
proof -
  have inv: "world_inv w" using assms(1) by (rule reachable_inv)
  have x: "(s, c) \<in> set (inflight w)" and s: "sess_run s = i"
  proof -
    have "(s, c) \<in> set (sessions i w)" using assms(3) by simp
    then show "(s, c) \<in> set (inflight w)" and "sess_run s = i" by (auto simp: sessions_def)
  qed
  let ?w1 = "w\<lparr>reg := (reg w)(i := None), dying := (dying w)(i \<mapsto> r)\<rparr>"
  let ?w2 = "?w1\<lparr>reg := finishExec (sess_run s) (reg ?w1), inflight := remove1 (s, c) (inflight ?w1)\<rparr>"
  let ?w3 = "?w2\<lparr>reg := (reg ?w2)(i \<mapsto> r), dying := (dying ?w2)(i := None)\<rparr>"
  have "lstep w ?w1" using assms(2) by (rule untrack)
  moreover have "lstep ?w1 ?w2" using x by (intro finish) simp
  moreover have "lstep ?w2 ?w3" by (rule retrack) simp
  ultimately have steps: "lsteps w ?w3" by (meson converse_rtranclp_into_rtranclp rtranclp.rtrancl_refl)
  have none: "sessions i ?w3 = []"
    using assms(3) by (simp add: sessions_def filter_remove1 s)
  have r3: "reg ?w3 i = Some r" by simp
  have "execs r \<ge> 1"
    using world_invD(6) [OF inv held_reg [OF assms(2)]] assms(3) by (simp add: run_ok_def)
  then have "stuck i ?w3"
    using none held_reg [OF r3] world_invD(2) [OF lsteps_inv [OF steps inv]] by (auto simp: stuck_def)
  then have "isl (snd (AcquireLease (clock w'') i owner ttl (reg w'')))" if "lsteps ?w3 w''" for w'' owner ttl
    using stuck_busy stuck_steps [OF that lsteps_inv [OF steps inv]] by blast
  then show ?thesis using steps none r3 by blast
qed

theorem lost_decrement_witness:
  "\<exists>w'. lsteps demo_busy w' \<and> sessions ''r1'' w' = [] \<and>
    isl (snd (AcquireLease (clock w') ''r1'' ''alice'' minute (reg w')))"
proof -
  have "reg demo_busy ''r1'' = Some (demo_run\<lparr>leaseGen := 1, Lease := Some demo_grant, execs := 1\<rparr>)"
    and "sessions ''r1'' demo_busy = [(demo_session, cred ''alice'' 1)]"
    by (simp_all add: demo_busy_def sessions_def demo_session_def)
  from lost_decrement [OF demo_busy_reach this] show ?thesis by blast
qed

end
