(* ===== verification/Docker.thy ===== *)
theory Docker
  imports Validate Go_Net
begin

text \<open>
  \<open>internal/run/runtime.go\<close>: the container boundary, which shells out to the docker CLI. The pure
  parts (argument lists, exit classification, buffers, quoting) are functions. The parts that run
  commands are functions of an argument \<open>cli\<close>, which answers a command given the commands before
  it, and return the trace of what they did, so that cleanup is a statement about the trace.

  \<open>fmt_g\<close> is \<open>fmt.Sprintf("%g", x)\<close> on a float64 (a rational number here).
\<close>

section \<open>The code: argument lists\<close>

record CreateSpec =
  SpecName :: string
  SpecImage :: string
  SpecEnv :: "(string \<times> string) list"   \<comment> \<open>in the order Go iterates the map\<close>
  MemoryMB :: int
  CPUs :: rat
  Pids :: int
  SpecNetwork :: tier
  ProxyURL :: string
  CacheHostPath :: string
  SpecCachePath :: string

record DockerRuntime =
  OCIRuntime :: string
  ShmMB :: int
  Bin :: string

definition EgressNetwork :: string where "EgressNetwork = ''teploy-sbx-egress''"
definition EgressSubnet :: string where "EgressSubnet = ''172.31.99.0/24''"
definition EgressGatewayIP :: string where "EgressGatewayIP = ''172.31.99.1''"
definition SnapshotRepo :: string where "SnapshotRepo = ''teploy-sbx-snap''"
definition SnapshotLabel :: string where "SnapshotLabel = ''teploy.sandbox.snapshot''"

definition dropCapabilities :: "string list" where
  "dropCapabilities = [''NET_RAW'', ''MKNOD'', ''AUDIT_WRITE'']"

definition bin :: "DockerRuntime \<Rightarrow> string" where
  "bin d = (if Bin d \<noteq> [] then Bin d else ''docker'')"

definition network_args :: "CreateSpec \<Rightarrow> string list" where
  "network_args spec =
     (case SpecNetwork spec of
        NetworkAllowlist \<Rightarrow>
          [''--network'', EgressNetwork] @
          (if ProxyURL spec \<noteq> [] then
             concat (map (\<lambda>key. [''-e'', key @ ''='' @ ProxyURL spec])
               [''HTTP_PROXY'', ''HTTPS_PROXY'', ''http_proxy'', ''https_proxy'']) @
             [''-e'', ''NO_PROXY=localhost,127.0.0.1'', ''-e'', ''no_proxy=localhost,127.0.0.1'']
           else [])
      | NetworkOpen \<Rightarrow> [''--network'', ''bridge'']
      | NetworkNone \<Rightarrow> [''--network'', ''none''])"

definition createArgs :: "(rat \<Rightarrow> string) \<Rightarrow> DockerRuntime \<Rightarrow> CreateSpec \<Rightarrow> string list" where
  "createArgs fmt_g d spec =
     [''run'', ''-d'',
      ''--name'', SpecName spec,
      ''--security-opt'', ''no-new-privileges'',
      ''--memory'', show_int (MemoryMB spec) @ ''m'',
      ''--cpus'', fmt_g (CPUs spec),
      ''--pids-limit'', show_int (Pids spec),
      ''--label'', ''teploy.sandbox=1'',
      ''--init''] @
     concat (map (\<lambda>c. [''--cap-drop'', c]) dropCapabilities) @
     (if OCIRuntime d \<noteq> [] then [''--runtime'', OCIRuntime d] else []) @
     (if OCIRuntime d = ''runsc'' then [''--annotation'', ''dev.gvisor.flag.overlay2=none''] else []) @
     (if ShmMB d > 0 then [''--shm-size'', show_int (ShmMB d) @ ''m''] else []) @
     network_args spec @
     concat (map (\<lambda>(key, value). [''-e'', key @ ''='' @ value]) (SpecEnv spec)) @
     (if CacheHostPath spec \<noteq> [] then [''-v'', CacheHostPath spec @ '':'' @ SpecCachePath spec] else []) @
     [SpecImage spec, ''sh'', ''-c'', ''mkdir -p '' @ WorkDir @ '' && exec sleep infinity'']"

text \<open>The watchdog script: its text starts with the test for a \<open>timeout\<close> tool.\<close>

definition execTimeoutScript :: string where
  "execTimeoutScript =
     ''if command -v timeout >/dev/null 2>&1; then exec timeout --kill-after=5s '' @ [CHR 0x22] @
     ''$0'' @ [CHR 0x22, CHR '' '', CHR 0x22] @ ''$@'' @ [CHR 0x22] @ ''; else echo '' @ [CHR 0x22] @
     ''sandbox: image has no timeout tool; refusing an unbounded exec (install coreutils)'' @
     [CHR 0x22] @ '' >&2; exit 127; fi''"

definition execCliGrace :: duration where "execCliGrace = 30 * second"

text \<open>\<open>timeout.Round(time.Second)\<close>, halves away from zero, capped at the largest duration.\<close>

definition Round_second :: "duration \<Rightarrow> duration" where
  "Round_second t =
     (let r = t mod second
      in if 2 * r < second then t - r
         else if t + (second - r) < 2 ^ 63 then t + (second - r) else 2 ^ 63 - 1)"

definition exec_secs :: "duration \<Rightarrow> int" where
  "exec_secs timeout = (let secs = Round_second timeout div second in if secs < 1 then 1 else secs)"

definition execArgs :: "string \<Rightarrow> string \<Rightarrow> string \<Rightarrow> duration \<Rightarrow> string list \<Rightarrow> string list" where
  "execArgs containerID dir cmd timeout envFile =
     [''exec'', ''--workdir'', dir] @
     concat (map (\<lambda>f. [''--env-file'', f]) envFile) @
     [containerID] @
     (if timeout \<le> 0 then [''sh'', ''-c'', cmd]
      else [''sh'', ''-c'', execTimeoutScript, show_int (exec_secs timeout) @ ''s'', ''sh'', ''-c'', cmd])"

definition classifyExit :: "int \<Rightarrow> duration \<Rightarrow> int \<times> bool" where
  "classifyExit code timeout =
     (if timeout > 0 \<and> (code = 124 \<or> code = 137) then (code, True) else (code, False))"

section \<open>The code: exec and files\<close>

text \<open>What running the CLI comes to: a clean exit, a non-zero exit code, or a failure to run it.\<close>

datatype run_outcome = RunOK | RunExit int | RunFailed string

text \<open>
  \<open>cli deadline args\<close> runs a command under a deadline (relative to now, \<open>None\<close> without one) and
  says whether the context's deadline was exceeded. \<open>envFile\<close> is what \<open>writeExecEnvFile\<close> returns.
\<close>

definition Docker_Exec :: "(duration option \<Rightarrow> string list \<Rightarrow> bool \<times> run_outcome) \<Rightarrow>
    string option \<Rightarrow> string \<Rightarrow> string \<Rightarrow> string \<Rightarrow> (string \<times> string) list \<Rightarrow> duration \<Rightarrow>
    int \<times> bool \<times> run_error option" where
  "Docker_Exec cli envFile containerID cmd cwd env timeout =
     (let dl = (if timeout > 0 then Some (i64 (timeout + execCliGrace)) else None);
          dir = (if cwd \<noteq> [] then cwd else WorkDir)
      in if env \<noteq> [] \<and> envFile = None then (-1, False, Some (ErrOther ''exec env''))
         else
           let files = (if env \<noteq> [] then [the envFile] else []);
               (exceeded, res) = cli dl (execArgs containerID dir cmd timeout files)
           in if exceeded then (-1, True, None)
              else case res of
                     RunOK \<Rightarrow> (0, False, None)
                   | RunExit c \<Rightarrow> (let (code, timedOut) = classifyExit c timeout in (code, timedOut, None))
                   | RunFailed e \<Rightarrow> (-1, False, Some (ErrOther e)))"

definition shellQuote :: "string \<Rightarrow> string" where
  "shellQuote s =
     [CHR 0x27] @
     concat (map (\<lambda>c. if c = CHR 0x27 then [CHR 0x27, CHR 0x5C, CHR 0x27, CHR 0x27] else [c]) s) @
     [CHR 0x27]"

definition writeFileArgs :: "string \<Rightarrow> string \<Rightarrow> string list" where
  "writeFileArgs containerID path =
     (let quoted = shellQuote path
      in [''exec'', ''-i'', containerID, ''sh'', ''-c'',
          ''mkdir -p '' @ [CHR 0x22] @ ''$(dirname '' @ quoted @ '')'' @ [CHR 0x22] @ '' && cat > '' @ quoted])"

definition MaxFileBytes :: int where "MaxFileBytes = 67108864"

record limitedBuffer =
  buf :: string
  limit :: int
  truncated :: bool

text \<open>\<open>limitedBuffer.Write\<close>; \<open>False\<close> is \<open>io.ErrShortWrite\<close>.\<close>

definition lb_write :: "string \<Rightarrow> limitedBuffer \<Rightarrow> limitedBuffer \<times> bool" where
  "lb_write p l =
     (if int (length (buf l)) + int (length p) > limit l then (l\<lparr>truncated := True\<rparr>, False)
      else (l\<lparr>buf := buf l @ p\<rparr>, True))"

text \<open>The copy loop of \<open>os/exec\<close>: it stops at the first failed write.\<close>

fun lb_copy :: "string list \<Rightarrow> limitedBuffer \<Rightarrow> limitedBuffer \<times> bool" where
  "lb_copy [] l = (l, True)"
| "lb_copy (p # ps) l =
     (case lb_write p l of (l', True) \<Rightarrow> lb_copy ps l' | (l', False) \<Rightarrow> (l', False))"

definition readFileArgs :: "string \<Rightarrow> string \<Rightarrow> string list" where
  "readFileArgs containerID path =
     [''exec'', containerID, ''sh'', ''-c'',
      ''cat '' @ shellQuote path @ '' | head -c '' @ show_int (MaxFileBytes + 1)]"

text \<open>
  \<open>cli args\<close> is the command's standard output, in the pieces it arrives in, and whether it exited
  with status 0. A failed copy is an error of the command as well.
\<close>

definition Docker_ReadFile :: "(string list \<Rightarrow> string list \<times> bool) \<Rightarrow> string \<Rightarrow> string \<Rightarrow>
    run_error + string" where
  "Docker_ReadFile cli containerID path =
     (let (chunks, exited_ok) = cli (readFileArgs containerID path);
          (stdout, copied) = lb_copy chunks \<lparr>buf = [], limit = MaxFileBytes + 1, truncated = False\<rparr>
      in if \<not> exited_ok \<or> \<not> copied then Inl (ErrOther ''read file'')
         else if truncated stdout then Inl (ErrOther ''exceeds the files-API limit'')
         else Inr (buf stdout))"

section \<open>What docker reads from the arguments of a create\<close>

text \<open>
  Specification: how the CLI splits the arguments of \<open>docker run\<close>: options first, each with a value
  unless it is a flag, then the image and its command.
\<close>

definition run_flags :: "string list" where
  "run_flags = [''-d'', ''--init'', ''--privileged'', ''--rm'', ''-i'', ''-t'']"

fun read_opts :: "string list \<Rightarrow> (string \<times> string option) list \<times> string list" where
  "read_opts [] = ([], [])"
| "read_opts [a] = (if HasPrefix a ''-'' then ([(a, None)], []) else ([], [a]))"
| "read_opts (a # v # rest) =
     (if \<not> HasPrefix a ''-'' then ([], a # v # rest)
      else if a \<in> set run_flags then
        (let (opts, pos) = read_opts (v # rest) in ((a, None) # opts, pos))
      else (let (opts, pos) = read_opts rest in ((a, Some v) # opts, pos)))"

definition opt_args :: "string \<times> string option \<Rightarrow> string list" where
  "opt_args kv = fst kv # (case snd kv of None \<Rightarrow> [] | Some v \<Rightarrow> [v])"

definition opt_ok :: "string \<times> string option \<Rightarrow> bool" where
  "opt_ok kv \<longleftrightarrow> HasPrefix (fst kv) ''-'' \<and> (snd kv = None \<longleftrightarrow> fst kv \<in> set run_flags)"

lemma opt_args_simps [simp]: "opt_args (k, None) = [k]" "opt_args (k, Some v) = [k, v]"
  by (simp_all add: opt_args_def)

lemma read_opts_positional: "\<not> HasPrefix a ''-'' \<Longrightarrow> read_opts (a # rest) = ([], a # rest)"
  by (cases rest) auto

lemma read_opts_args:
  "list_all opt_ok opts \<Longrightarrow> rest \<noteq> [] \<Longrightarrow> read_opts (concat (map opt_args opts) @ rest) =
     (opts @ fst (read_opts rest), snd (read_opts rest))"
proof (induction opts)
  case (Cons kv opts)
  obtain k v where kv: "kv = (k, v)" by (cases kv)
  have "concat (map opt_args opts) @ rest \<noteq> []" using Cons.prems(2) by simp
  then obtain a r where r: "concat (map opt_args opts) @ rest = a # r" by (cases "concat (map opt_args opts) @ rest") auto
  show ?case
    using Cons kv r by (cases v) (auto simp: opt_ok_def split: prod.splits)
qed simp

definition net_opts :: "CreateSpec \<Rightarrow> (string \<times> string option) list" where
  "net_opts spec =
     (case SpecNetwork spec of
        NetworkAllowlist \<Rightarrow>
          (''--network'', Some EgressNetwork) #
          (if ProxyURL spec \<noteq> [] then
             map (\<lambda>key. (''-e'', Some (key @ ''='' @ ProxyURL spec)))
               [''HTTP_PROXY'', ''HTTPS_PROXY'', ''http_proxy'', ''https_proxy''] @
             [(''-e'', Some ''NO_PROXY=localhost,127.0.0.1''), (''-e'', Some ''no_proxy=localhost,127.0.0.1'')]
           else [])
      | NetworkOpen \<Rightarrow> [(''--network'', Some ''bridge'')]
      | NetworkNone \<Rightarrow> [(''--network'', Some ''none'')])"

definition env_opts :: "(string \<times> string) list \<Rightarrow> (string \<times> string option) list" where
  "env_opts env = map (\<lambda>(key, value). (''-e'', Some (key @ ''='' @ value))) env"

lemma env_opts_keys: "kv \<in> set (env_opts env) \<Longrightarrow> fst kv = ''-e'' \<and> snd kv \<noteq> None"
  by (auto simp: env_opts_def)

lemma env_opts_filter [simp]: "k \<noteq> ''-e'' \<Longrightarrow> filter (\<lambda>kv. fst kv = k) (env_opts env) = []"
  using env_opts_keys by (fastforce simp: filter_empty_conv)

text \<open>Specification: the options of a run container.\<close>

definition run_opts :: "(rat \<Rightarrow> string) \<Rightarrow> DockerRuntime \<Rightarrow> CreateSpec \<Rightarrow> (string \<times> string option) list" where
  "run_opts fmt_g d spec =
     [(''-d'', None), (''--name'', Some (SpecName spec)), (''--security-opt'', Some ''no-new-privileges''),
      (''--memory'', Some (show_int (MemoryMB spec) @ ''m'')), (''--cpus'', Some (fmt_g (CPUs spec))),
      (''--pids-limit'', Some (show_int (Pids spec))), (''--label'', Some ''teploy.sandbox=1''), (''--init'', None),
      (''--cap-drop'', Some ''NET_RAW''), (''--cap-drop'', Some ''MKNOD''), (''--cap-drop'', Some ''AUDIT_WRITE'')] @
     (if OCIRuntime d \<noteq> [] then [(''--runtime'', Some (OCIRuntime d))] else []) @
     (if OCIRuntime d = ''runsc'' then [(''--annotation'', Some ''dev.gvisor.flag.overlay2=none'')] else []) @
     (if ShmMB d > 0 then [(''--shm-size'', Some (show_int (ShmMB d) @ ''m''))] else []) @
     net_opts spec @
     env_opts (SpecEnv spec) @
     (if CacheHostPath spec \<noteq> [] then [(''-v'', Some (CacheHostPath spec @ '':'' @ SpecCachePath spec))] else [])"

definition boot_cmd :: "string list" where
  "boot_cmd = [''sh'', ''-c'', ''mkdir -p /work && exec sleep infinity'']"

lemma network_args_opts: "network_args spec = concat (map opt_args (net_opts spec))"
  by (simp add: network_args_def net_opts_def opt_args_def split: tier.splits)

lemma createArgs_opts:
  "createArgs fmt_g d spec =
     ''run'' # concat (map opt_args (run_opts fmt_g d spec)) @ SpecImage spec # boot_cmd"
proof -
  have "concat (map (\<lambda>(key, value). [''-e'', key @ ''='' @ value]) env) =
      concat (map opt_args (map (\<lambda>(key, value). (''-e'', Some (key @ ''='' @ value))) env))" for env
    by (induction env) (auto simp: opt_args_def)
  then show ?thesis
    by (simp add: createArgs_def run_opts_def env_opts_def network_args_opts dropCapabilities_def boot_cmd_def
        WorkDir_def)
qed

lemma run_opts_ok: "list_all opt_ok (run_opts fmt_g d spec)"
proof -
  have k: "opt_ok (k, Some v)" if "k \<in> {''--name'', ''--security-opt'', ''--memory'', ''--cpus'',
      ''--pids-limit'', ''--label'', ''--cap-drop'', ''--runtime'', ''--annotation'', ''--shm-size'',
      ''--network'', ''-e'', ''-v''}" for k v
    using that by (auto simp: opt_ok_def run_flags_def HasPrefix_def)
  have f: "opt_ok (k, None)" if "k \<in> {''-d'', ''--init''}" for k
    using that by (auto simp: opt_ok_def run_flags_def HasPrefix_def)
  have e: "list_all opt_ok (env_opts env)" for env
    using k by (auto simp: env_opts_def list_all_iff)
  have n: "list_all opt_ok (net_opts spec)" using k by (simp add: net_opts_def split: tier.splits)
  show ?thesis unfolding run_opts_def using k f e n by simp
qed

lemma read_createArgs:
  "read_opts (tl (createArgs fmt_g d spec)) =
     (run_opts fmt_g d spec @ fst (read_opts (SpecImage spec # boot_cmd)),
      snd (read_opts (SpecImage spec # boot_cmd)))"
  using read_opts_args [OF run_opts_ok, of "SpecImage spec # boot_cmd"] by (simp add: createArgs_opts)


definition demo_docker :: DockerRuntime where
  "demo_docker = \<lparr>OCIRuntime = ''runsc'', ShmMB = 512, Bin = []\<rparr>"

definition demo_spec :: "string \<Rightarrow> CreateSpec" where
  "demo_spec img = \<lparr>SpecName = ''teploy-sbx-1'', SpecImage = img, SpecEnv = [(''A'', ''--privileged'')],
     MemoryMB = 1024, CPUs = 1, Pids = 256, SpecNetwork = NetworkNone, ProxyURL = [], CacheHostPath = [],
     SpecCachePath = []\<rparr>"


text \<open>
  The proviso is not enforced: \<open>Create\<close> only refuses a blank image, so an image reference
  that is an option is read as one, and the next argument as the image.
\<close>

theorem image_read_as_option:
  "read_opts (tl (createArgs fmt_g d (spec\<lparr>SpecImage := ''--privileged''\<rparr>))) =
     (run_opts fmt_g d spec @ [(''--privileged'', None)], boot_cmd)"
proof -
  have "read_opts (''--privileged'' # boot_cmd) = ([(''--privileged'', None)], boot_cmd)"
    by (simp add: boot_cmd_def run_flags_def HasPrefix_def)
  moreover have "run_opts fmt_g d (spec\<lparr>SpecImage := i\<rparr>) = run_opts fmt_g d spec" for i
    by (cases "SpecNetwork spec") (simp_all add: run_opts_def net_opts_def)
  ultimately show ?thesis by (simp add: read_createArgs)
qed

section \<open>The watchdog\<close>

lemma Round_second_near:
  assumes "0 \<le> t" and "t < 2 ^ 63 - second"
  shows "second dvd Round_second t \<and> \<bar>2 * (Round_second t - t)\<bar> \<le> second \<and> 0 \<le> Round_second t"
proof -
  let ?r = "t mod second"
  have r: "0 \<le> ?r" "?r < second" by simp_all
  have d: "second dvd t - ?r" by (simp add: minus_mod_eq_mult_div)
  have le: "?r \<le> t" using assms(1) by (simp add: zmod_le_nonneg_dividend)
  show ?thesis
  proof (cases "2 * ?r < second")
    case True
    then show ?thesis using d r le by (simp add: Round_second_def)
  next
    case False
    have "second dvd t - ?r + second" using d by (rule dvd_add) simp
    then have "second dvd t + (second - ?r)" by (simp add: algebra_simps)
    then show ?thesis using False r assms by (simp add: Round_second_def)
  qed
qed



section \<open>Quoting\<close>

text \<open>
  Specification: one word as the shell reads it (quote removal). In quotes every character but the
  quote stands for itself, outside only a backslash escape or a quote is accepted: \<open>None\<close> means that
  some character would be read by the shell as syntax.
\<close>

fun sh_word :: "bool \<Rightarrow> string \<Rightarrow> string option" where
  "sh_word False [] = Some []"
| "sh_word True [] = None"
| "sh_word True (c # s) =
     (if c = CHR 0x27 then sh_word False s else map_option ((#) c) (sh_word True s))"
| "sh_word False (c # s) =
     (if c = CHR 0x27 then sh_word True s
      else if c = CHR 0x5C then (case s of [] \<Rightarrow> None | d # s' \<Rightarrow> map_option ((#) d) (sh_word False s'))
      else None)"

text \<open>
  C34. A path reaches the container's shell as data: the quoted form of any string is one word that
  reads back as the string, with no character left for the shell to interpret.
\<close>

theorem shellQuote_roundtrip: "sh_word False (shellQuote s) = Some s"
proof -
  have "sh_word True (concat (map (\<lambda>c. if c = CHR 0x27 then [CHR 0x27, CHR 0x5C, CHR 0x27, CHR 0x27] else [c]) s)
      @ [CHR 0x27]) = Some s"
    by (induction s) auto
  then show ?thesis by (simp add: shellQuote_def)
qed

section \<open>The read limit\<close>

lemma lb_copy_fits:
  "int (length (buf l)) + int (length (concat ps)) \<le> limit l \<Longrightarrow>
     lb_copy ps l = (l\<lparr>buf := buf l @ concat ps\<rparr>, True)"
  by (induction ps arbitrary: l) (auto simp: lb_write_def split: prod.splits)

text \<open>
  Reads are bounded, but the bound is silent. The pipeline delivers at most one byte past the
  cap, which is exactly what the buffer takes, so the \<open>truncated\<close> branch is dead: a larger file is
  not refused but cut to its first \<open>MaxFileBytes + 1\<close> bytes. (The status of the pipeline is that of
  \<open>head\<close>, so a missing file, for which nothing is written, reads as an empty one.)
\<close>

theorem ReadFile_cut_silently:
  assumes "cli (readFileArgs containerID path) = (chunks, True)"
    and "concat chunks = take (nat (MaxFileBytes + 1)) content"
  shows "Docker_ReadFile cli containerID path = Inr (take (nat (MaxFileBytes + 1)) content)"
proof -
  let ?l = "\<lparr>buf = [], limit = MaxFileBytes + 1, truncated = False\<rparr>"
  have "length (concat chunks) \<le> nat (MaxFileBytes + 1)" by (simp add: assms(2))
  then have "int (length (concat chunks)) \<le> MaxFileBytes + 1" by (simp add: MaxFileBytes_def)
  then have "lb_copy chunks ?l = (?l\<lparr>buf := concat chunks\<rparr>, True)" using lb_copy_fits [of ?l chunks] by simp
  then show ?thesis using assms by (simp add: Docker_ReadFile_def)
qed

theorem ReadFile_cut_silently_witness:
  "Docker_ReadFile (\<lambda>_. ([''hel'', ''lo''], True)) ''c1'' ''/work/a'' = Inr ''hello'' \<and>
   Docker_ReadFile (\<lambda>_. ([], True)) ''c1'' ''/work/missing'' = Inr []"
  using ReadFile_cut_silently [of "\<lambda>_. ([''hel'', ''lo''], True)" "''c1''" "''/work/a''" _ "''hello''"]
    ReadFile_cut_silently [of "\<lambda>_. ([], True)" "''c1''" "''/work/missing''" _ "[]"]
  by (simp add: MaxFileBytes_def)

end
