(* ===== verification/Docker_Cli.thy ===== *)
theory Docker_Cli
  imports Docker
begin

text \<open>
  The operations of \<open>internal/run/runtime.go\<close> that issue several docker commands. The daemon on the
  other side is unknown: \<open>dk tr args\<close> answers the command \<open>args\<close> after the events \<open>tr\<close>, and may
  answer anything. An operation takes the events so far and returns them extended by its own.
\<close>

section \<open>The code\<close>

record cli_out =
  cli_ok :: bool          \<comment> \<open>exit status 0\<close>
  cli_text :: string      \<comment> \<open>what it wrote\<close>

datatype event = Cmd "string list" bool | TempDir | RemoveTemp

type_synonym daemon = "event list \<Rightarrow> string list \<Rightarrow> cli_out"

definition docker :: "daemon \<Rightarrow> string list \<Rightarrow> event list \<Rightarrow> cli_out \<times> event list" where
  "docker dk args tr = (let out = dk tr args in (out, tr @ [Cmd args (cli_ok out)]))"

definition fails :: "string \<Rightarrow> cli_out \<Rightarrow> run_error option" where
  "fails what out = Some (ErrOther (what @ TrimSpace (cli_text out)))"

definition createNet :: "string list \<Rightarrow> string list" where
  "createNet addressing =
     [''network'', ''create'', ''--driver'', ''bridge'', ''--internal''] @ addressing @ [EgressNetwork]"

definition EnsureEgressNetwork :: "daemon \<Rightarrow> event list \<Rightarrow> run_error option \<times> event list" where
  "EnsureEgressNetwork dk tr =
     (let (inspect, tr) = docker dk [''network'', ''inspect'', ''-f'', ''{{.Internal}}'', EgressNetwork] tr;
          create = (\<lambda>tr.
            let (out, tr) = docker dk (createNet [''--subnet'', EgressSubnet, ''--gateway'', EgressGatewayIP]) tr
            in if cli_ok out then (None, tr)
               else
                 let (fb, tr) = docker dk (createNet []) tr
                 in if cli_ok fb then (None, tr)
                    else (Some (ErrOther (''create egress network: '' @ TrimSpace (cli_text out) @ '' / '' @
                            TrimSpace (cli_text fb))), tr))
      in if \<not> cli_ok inspect then create tr
         else if TrimSpace (cli_text inspect) = ''true'' then (None, tr)
         else
           let (rm, tr) = docker dk [''network'', ''rm'', EgressNetwork] tr
           in if cli_ok rm then create tr
              else (fails ''egress network exists WITHOUT --internal and cannot be replaced: '' rm, tr))"

text \<open>
  \<open>net.ParseCIDR\<close> followed by \<open>To4\<close>, for a dotted IPv4 network: the four bytes of its address.
  (The IPv4-mapped IPv6 form, which Docker does not print, is left out.)
\<close>

definition ParseCIDR4 :: "string \<Rightarrow> 8 word list option" where
  "ParseCIDR4 s =
     (case Split (CHR ''/'') s of
        [addr, bits] \<Rightarrow>
          (case parse_digits bits of
             None \<Rightarrow> None
           | Some n \<Rightarrow>
               if n \<le> 32 \<and> valid_ipv4 addr then
                 Some (map (\<lambda>o'. word_of_int (the (parse_digits o'))) (Split (CHR ''.'') addr))
               else None)
      | _ \<Rightarrow> None)"

definition IP_String :: "8 word list \<Rightarrow> string" where
  "IP_String ip = Join ''.'' (map (\<lambda>b. show_nat (unat b)) ip)"

text \<open>The loop over the IPAM configurations, as pairs of subnet and gateway.\<close>

fun gateway_loop :: "(string \<times> string) list \<Rightarrow> string" where
  "gateway_loop [] = EgressGatewayIP"
| "gateway_loop ((subnet, gateway) # configs) =
     (if gateway \<noteq> [] then gateway
      else case ParseCIDR4 subnet of
             Some ip \<Rightarrow> IP_String (ip[3 := ip ! 3 + 1])
           | None \<Rightarrow> gateway_loop configs)"

text \<open>\<open>decode\<close> is \<open>json.Unmarshal\<close> into the list of networks, each the list of its configurations.\<close>

definition EgressGateway :: "(string \<Rightarrow> (string \<times> string) list list option) \<Rightarrow> daemon \<Rightarrow> event list \<Rightarrow>
    (run_error + string) \<times> event list" where
  "EgressGateway decode dk tr =
     (let (out, tr) = docker dk [''network'', ''inspect'', EgressNetwork] tr
      in if \<not> cli_ok out then (Inl (ErrOther ''inspect egress network''), tr)
         else case decode (cli_text out) of
                None \<Rightarrow> (Inr EgressGatewayIP, tr)
              | Some networks \<Rightarrow>
                  (case networks of
                     [] \<Rightarrow> (Inr EgressGatewayIP, tr)
                   | config # _ \<Rightarrow> (Inr (gateway_loop config), tr)))"

definition Docker_Remove :: "daemon \<Rightarrow> string \<Rightarrow> event list \<Rightarrow> run_error option \<times> event list" where
  "Docker_Remove dk containerID tr =
     (let (out, tr) = docker dk [''rm'', ''-f'', containerID] tr
      in (if cli_ok out then None else fails ''docker rm: '' out, tr))"

definition RemoveImage :: "daemon \<Rightarrow> string \<Rightarrow> event list \<Rightarrow> run_error option \<times> event list" where
  "RemoveImage dk imageRef tr =
     (let (out, tr) = docker dk [''rmi'', imageRef] tr
      in (if cli_ok out then None else fails ''docker rmi: '' out, tr))"

text \<open>
  The polling loop. Poll number \<open>n\<close> happens at time \<open>fst (ticks n)\<close>; \<open>snd (ticks n)\<close> says whether the
  context is done while it sleeps. \<open>None\<close>: out of fuel.
\<close>

fun waitRunning :: "nat \<Rightarrow> (nat \<Rightarrow> time \<times> bool) \<Rightarrow> nat \<Rightarrow> time \<Rightarrow> daemon \<Rightarrow> string \<Rightarrow> event list \<Rightarrow>
    (run_error option \<times> event list) option" where
  "waitRunning 0 ticks n deadline dk containerID tr = None"
| "waitRunning (Suc fuel) ticks n deadline dk containerID tr =
     (let (out, tr) = docker dk [''inspect'', ''-f'', ''{{.State.Running}}'', containerID] tr
      in if cli_ok out \<and> TrimSpace (cli_text out) = ''true'' then Some (None, tr)
         else if fst (ticks n) > deadline
         then Some (Some (ErrOther (''container '' @ containerID @ '' did not reach running state'')), tr)
         else if snd (ticks n) then Some (Some (ErrOther ''context done''), tr)
         else waitRunning fuel ticks (Suc n) deadline dk containerID tr)"

definition Docker_Create :: "(rat \<Rightarrow> string) \<Rightarrow> nat \<Rightarrow> time \<Rightarrow> (nat \<Rightarrow> time \<times> bool) \<Rightarrow> daemon \<Rightarrow>
    DockerRuntime \<Rightarrow> CreateSpec \<Rightarrow> event list \<Rightarrow> ((run_error + string) \<times> event list) option" where
  "Docker_Create fmt_g fuel now ticks dk d spec tr =
     (let (out, tr) = docker dk (createArgs fmt_g d spec) tr
      in if \<not> cli_ok out then Some (Inl (ErrOther (''docker run: '' @ TrimSpace (cli_text out))), tr)
         else
           let containerID = TrimSpace (cli_text out)
           in case waitRunning fuel ticks 0 (now + 15 * second) dk containerID tr of
                None \<Rightarrow> None
              | Some (None, tr) \<Rightarrow> Some (Inr containerID, tr)
              | Some (Some e, tr) \<Rightarrow>
                  let (_, tr) = Docker_Remove dk containerID tr in Some (Inl e, tr))"

text \<open>\<open>filepath.Base\<close> and \<open>filepath.Dir\<close> of a plain absolute path, as \<open>ValidateWarmPath\<close> accepts.\<close>

definition path_base :: "string \<Rightarrow> string" where
  "path_base p = last (Split (CHR ''/'') p)"

definition path_dir :: "string \<Rightarrow> string" where
  "path_dir p = (let d = Join ''/'' (butlast (Split (CHR ''/'') p)) in if d = [] then ''/'' else d)"

text \<open>\<open>tmp\<close> is the directory \<open>os.MkdirTemp\<close> makes, \<open>None\<close> when it fails; \<open>seed\<close> the fresh name.\<close>

definition commit_final :: "string \<Rightarrow> string \<Rightarrow> string list" where
  "commit_final container imageRef =
     [''commit'', ''--change'', ''LABEL '' @ SnapshotLabel @ ''=1'', container, imageRef]"

definition drop_stage :: "daemon \<Rightarrow> string \<Rightarrow> event list \<Rightarrow> event list" where
  "drop_stage dk staging tr = snd (docker dk [''rmi'', staging] tr)"

definition drop_seed :: "daemon \<Rightarrow> string \<Rightarrow> event list \<Rightarrow> event list" where
  "drop_seed dk seed tr = snd (docker dk [''rm'', ''-f'', seed] tr)"

definition Docker_Snapshot :: "daemon \<Rightarrow> string option \<Rightarrow> string \<Rightarrow> string \<Rightarrow> string \<Rightarrow> string \<Rightarrow> event list \<Rightarrow>
    run_error option \<times> event list" where
  "Docker_Snapshot dk tmp seed containerID volumePath imageRef tr =
     (if volumePath = [] then
        (let (out, tr) = docker dk (commit_final containerID imageRef) tr
         in (if cli_ok out then None else fails ''docker commit: '' out, tr))
      else
        let staging = imageRef @ ''-stage'';
            (out, tr) = docker dk [''commit'', containerID, staging] tr
        in if \<not> cli_ok out then (fails ''docker commit (staging): '' out, tr)
           else case tmp of
                  None \<Rightarrow> (Some (ErrOther ''snapshot temp dir''), drop_stage dk staging tr)
                | Some dir \<Rightarrow>
                    let tr = tr @ [TempDir];
                        (out, tr) = docker dk [''create'', ''--name'', seed, staging] tr
                    in if \<not> cli_ok out
                       then (fails ''snapshot seed container: '' out, drop_stage dk staging tr @ [RemoveTemp])
                       else
                         let fail = (\<lambda>what out tr.
                               (fails what out, drop_stage dk staging (drop_seed dk seed tr) @ [RemoveTemp]));
                             (out, tr) = docker dk [''cp'', containerID @ '':'' @ volumePath, dir] tr
                         in if \<not> cli_ok out then fail ''snapshot copy volume out: '' out tr
                            else
                              let (out, tr) = docker dk [''cp'', dir @ ''/'' @ path_base volumePath,
                                                  seed @ '':'' @ path_dir volumePath] tr
                              in if \<not> cli_ok out then fail ''snapshot copy volume in: '' out tr
                                 else
                                   let (out, tr) = docker dk (commit_final seed imageRef) tr
                                   in if \<not> cli_ok out then fail ''snapshot commit: '' out tr
                                      else (None, drop_stage dk staging (drop_seed dk seed tr) @ [RemoveTemp]))"

definition SeedVolume :: "daemon \<Rightarrow> string option \<Rightarrow> string \<Rightarrow> string \<Rightarrow> string \<Rightarrow> string \<Rightarrow> event list \<Rightarrow>
    run_error option \<times> event list" where
  "SeedVolume dk tmp seed containerID imageRef volumePath tr =
     (case tmp of
        None \<Rightarrow> (Some (ErrOther ''seed temp dir''), tr)
      | Some dir \<Rightarrow>
          let tr = tr @ [TempDir];
              (out, tr) = docker dk [''create'', ''--name'', seed, imageRef] tr
          in if \<not> cli_ok out then (fails ''seed container: '' out, tr @ [RemoveTemp])
             else
               let fail = (\<lambda>what out tr. (fails what out, drop_seed dk seed tr @ [RemoveTemp]));
                   (out, tr) = docker dk [''cp'', seed @ '':'' @ volumePath, dir] tr
               in if \<not> cli_ok out then fail ''seed copy out of image: '' out tr
                  else
                    let (out, tr) = docker dk [''cp'', dir @ ''/'' @ path_base volumePath,
                                        containerID @ '':'' @ path_dir volumePath] tr
                    in if \<not> cli_ok out then fail ''seed copy into volume: '' out tr
                       else (None, drop_seed dk seed tr @ [RemoveTemp]))"

definition ImageIsSnapshot :: "string \<Rightarrow> bool" where
  "ImageIsSnapshot imageRef = HasPrefix imageRef (SnapshotRepo @ '':'')"

text \<open>\<open>strings.Fields\<close> of ASCII output: split at white space.\<close>

definition Fields :: "string \<Rightarrow> string list" where
  "Fields s = FieldsFunc (\<lambda>c. c \<in> {CHR '' '', CHR 0x09, CHR 0x0A, CHR 0x0B, CHR 0x0C, CHR 0x0D}) s"

definition SweepOrphans :: "daemon \<Rightarrow> event list \<Rightarrow> (run_error + nat) \<times> event list" where
  "SweepOrphans dk tr =
     (let (out, tr) = docker dk [''ps'', ''-aq'', ''--filter'', ''label=teploy.sandbox=1''] tr
      in if \<not> cli_ok out then (Inl (ErrOther ''docker ps''), tr)
         else
           let ids = Fields (cli_text out)
           in if ids = [] then (Inr 0, tr)
              else
                let (rm, tr) = docker dk ([''rm'', ''-f''] @ ids) tr
                in if \<not> cli_ok rm then (Inl (ErrOther (''docker rm: '' @ TrimSpace (cli_text rm))), tr)
                   else (Inr (length ids), tr))"

section \<open>Cleanup\<close>


definition obliging :: daemon where
  "obliging tr args = \<lparr>cli_ok = True, cli_text = []\<rparr>"


section \<open>The egress bridge\<close>

text \<open>
  C36. After a successful \<open>EnsureEgressNetwork\<close> the egress bridge is an internal one: either docker
  reported it as internal, or it was created, last of all, with \<open>--internal\<close>; and a bridge that is
  not internal was removed before.
\<close>

theorem EnsureEgressNetwork_internal:
  assumes "EnsureEgressNetwork dk tr = (None, tr')"
    and "inspect = [''network'', ''inspect'', ''-f'', ''{{.Internal}}'', EgressNetwork]"
  shows "(tr' = tr @ [Cmd inspect True] \<and> TrimSpace (cli_text (dk tr inspect)) = ''true'') \<or>
    (\<exists>addressing. last tr' = Cmd (createNet addressing) True \<and>
       ''--internal'' \<in> set (createNet addressing) \<and>
       (cli_ok (dk tr inspect) \<longrightarrow> Cmd [''network'', ''rm'', EgressNetwork] True \<in> set tr'))"
  using assms
  by (auto simp: EnsureEgressNetwork_def docker_def Let_def fails_def createNet_def split: if_splits)

theorem EnsureEgressNetwork_internal_witness:
  "last (snd (EnsureEgressNetwork obliging [])) =
     Cmd (createNet [''--subnet'', EgressSubnet, ''--gateway'', EgressGatewayIP]) True"
proof -
  have t: "TrimSpace [] = []" by code_simp
  have r: "EnsureEgressNetwork obliging [] = (None, snd (EnsureEgressNetwork obliging []))"
    and l: "last (snd (EnsureEgressNetwork obliging [])) =
      Cmd (createNet [''--subnet'', EgressSubnet, ''--gateway'', EgressGatewayIP]) True"
    by (simp_all add: EnsureEgressNetwork_def docker_def obliging_def t)
  from EnsureEgressNetwork_internal [OF r refl] l show ?thesis by blast
qed

section \<open>Waiting for a container\<close>

lemma waitRunning_mono:
  assumes "\<And>k. fst (ticks k) + 50000000 \<le> fst (ticks (Suc k))"
    and "deadline < fst (ticks n) + 50000000 * int fuel"
  shows "waitRunning (Suc fuel) ticks n deadline dk c tr \<noteq> None"
  using assms(2)
proof (induction fuel arbitrary: n tr)
  case 0
  then show ?case by (auto simp: docker_def Let_def)
next
  case (Suc fuel)
  have "deadline < fst (ticks (Suc n)) + 50000000 * int fuel"
    using Suc.prems assms(1) [of n] by simp
  from Suc.IH [OF this] show ?case
    by (subst waitRunning.simps) (simp add: docker_def Let_def del: waitRunning.simps)
qed

text \<open>
  C30. \<open>waitRunning\<close> returns: since a poll sleeps at least 50 ms, the 15-second deadline is passed
  within 302 polls whatever docker answers, and success is reported only after an inspect that said
  the container is running.
\<close>

theorem waitRunning_returns:
  assumes "\<And>k. fst (ticks k) + 50000000 \<le> fst (ticks (Suc k))" and "now \<le> fst (ticks 0)"
  shows "\<exists>err tr'. waitRunning 302 ticks 0 (now + 15 * second) dk c [] = Some (err, tr') \<and>
    (err = None \<longrightarrow> (\<exists>tr. tr' = tr @ [Cmd [''inspect'', ''-f'', ''{{.State.Running}}'', c] True]))"
proof -
  have running: "\<exists>tr. tr' = tr @ [Cmd [''inspect'', ''-f'', ''{{.State.Running}}'', c] True]"
    if "waitRunning fuel ticks n d dk c tr0 = Some (None, tr')" for fuel n d tr0 tr'
    using that
    by (induction fuel arbitrary: n tr0) (auto simp: docker_def Let_def split: if_splits)
  have "waitRunning (Suc 301) ticks 0 (now + 15 * second) dk c [] \<noteq> None"
    by (rule waitRunning_mono) (use assms in auto)
  moreover have "Suc 301 = 302" by simp
  ultimately show ?thesis using running by (metis not_Some_eq surj_pair)
qed

theorem waitRunning_returns_witness:
  "\<exists>err tr'. waitRunning 302 (\<lambda>k. (50000000 * int k, False)) 0 (0 + 15 * second) obliging ''c1'' [] =
     Some (err, tr')"
  using waitRunning_returns [of "\<lambda>k. (50000000 * int k, False)" 0 obliging "''c1''"] by auto

end
