(* ===== verification/Cache_Boot.thy ===== *)
theory Cache_Boot
  imports Cache_Correct
begin

text \<open>
  Committing a volume and booting from it: the round trip, the all-or-nothing behaviour of
  \<open>Boot\<close>, and the interface \<open>volume_store\<close> the manager relies on, interpreted on the cache. The last
  section holds the cases in which the cleanup after a commit removes the generation the manifest names.
\<close>

section \<open>Frames\<close>

definition only_under :: "path \<Rightarrow> store \<Rightarrow> store \<Rightarrow> bool" where
  "only_under p c c' \<longleftrightarrow> wf_tree (files c') \<and> same_meta c c' \<and>
     (\<forall>q. \<not> under p q \<longrightarrow> node_at c' q = node_at c q)"

lemma only_under_sound: "only_under p c c' \<Longrightarrow> faults (disk c) = [] \<Longrightarrow> faults (disk c') = []"
  by (simp add: only_under_def same_meta_def)

lemma only_under_at: "only_under p c c' \<Longrightarrow> \<not> under p q \<Longrightarrow> node_at c' q = node_at c q"
  by (simp add: only_under_def)

text \<open>The marks touch neither the disk nor the paths.\<close>

lemma mark_disk [simp]:
  "disk (mark p c) = disk c" "files (mark p c) = files c" "node_at (mark p c) = node_at c"
  "slugDir l (mark p c) = slugDir l c" "runDir l (mark p c) = runDir l c" "Root (mark p c) = Root c"
  by (simp_all add: mark_def files_def node_at_def slugDir_def runDir_def fun_eq_iff)

lemma unmark_disk [simp]:
  "disk (unmark p c) = disk c" "files (unmark p c) = files c" "node_at (unmark p c) = node_at c"
  "slugDir l (unmark p c) = slugDir l c" "runDir l (unmark p c) = runDir l c" "Root (unmark p c) = Root c"
  by (auto simp: unmark_def files_def node_at_def slugDir_def runDir_def fun_eq_iff)

lemma uses_mark: "uses q (mark p c) = (if q = p then uses p c + 1 else uses q c)"
  by (simp add: mark_def uses_def update_conv')

lemma uses_unmark: "uses p c > 0 \<Longrightarrow> uses q (unmark p c) = (if q = p then uses p c - 1 else uses q c)"
  by (auto simp: unmark_def uses_def update_conv' delete_conv')

section \<open>The disk operations, on the store\<close>

lemma mkdir_store:
  assumes "on_disk (MkdirAll p perm) c = (None, c')" and "wf_tree (files c)"
  shows "wf_tree (files c') \<and> same_meta c c' \<and> is_dir p (files c') \<and>
    node_at c' = (\<lambda>q. if q \<noteq> [] \<and> under q p \<and> node_at c q = None then Some (Dir perm) else node_at c q)"
  using assms MkdirAll_ok [of p perm "disk c"]
  by (auto simp: on_disk_def Let_def same_meta_def files_def node_at_def split: prod.splits)

lemma mkdir_store_fails:
  assumes "on_disk (MkdirAll p perm) c = (Some e, c')"
  shows "files c' = files c \<and> same_meta c c'"
  using assms MkdirAll_fails [of p perm "disk c" e]
  by (auto simp: on_disk_def Let_def same_meta_def files_def split: prod.splits)

lemma write_store:
  assumes "on_disk (OS_WriteFile p s perm) c = (e, c')" and "wf_tree (files c)" and "p \<noteq> []"
  shows "wf_tree (files c') \<and> same_meta c c' \<and> (\<forall>q. q \<noteq> p \<longrightarrow> node_at c' q = node_at c q) \<and>
    (e = None \<longrightarrow> (\<exists>m. node_at c' p = Some (File m s (wall (disk c)))))"
proof -
  obtain f d where f: "fault (disk c) = (f, d)" by fastforce
  note fs = fault_same [OF f]
  show ?thesis
  proof (cases "f \<or> \<not> is_dir (butlast p) (tree d)")
    case True
    then show ?thesis using assms(1,2) f fs
      by (auto simp: on_disk_def OS_WriteFile_def Let_def same_meta_def files_def node_at_def)
  next
    case False
    have "wf_tree (put p (File m s (wall d)) (tree d))" if "\<not> is_dir p (tree d)" for m
      by (rule wf_put) (use False that assms fs in \<open>auto simp: files_def\<close>)
    moreover have "\<not> is_dir p (tree d)" if "map_of (tree d) p = None \<or> map_of (tree d) p = Some (File m' c' w)" for m' c' w
      using that assms(3) by (auto simp: is_dir_Some)
    ultimately show ?thesis using assms False f fs
      by (auto simp: on_disk_def OS_WriteFile_def Let_def same_meta_def files_def node_at_def
          split: option.splits node.splits)
  qed
qed

lemma touch_store:
  assumes "wf_tree (files c)"
  shows "only_under (sd @ [lastUsedFile]) c (touchLastUsed sd c)"
proof (cases "map_of (files c) (sd @ [lastUsedFile])")
  case None
  obtain e c' where w: "on_disk (OS_WriteFile (sd @ [lastUsedFile]) [] 384) c = (e, c')" by fastforce
  have "q \<noteq> sd @ [lastUsedFile]" if "\<not> under (sd @ [lastUsedFile]) q" for q using that by auto
  then show ?thesis using write_store [OF w assms] None w by (auto simp: touchLastUsed_def only_under_def)
next
  case (Some n)
  have t: "tree (disk c) = files c" by (simp add: files_def)
  have "wf_tree (put (sd @ [lastUsedFile]) (File m s w) (files c))" if "n = File m s w'" for m s w w'
    by (rule wf_put [OF assms])
      (use Some that wf_treeD [OF assms Some] in \<open>auto simp: is_dir_Some\<close>)
  then show ?thesis using Some assms
    by (cases n) (auto simp: touchLastUsed_def only_under_def same_meta_def files_def node_at_def)
qed

lemma copy_store:
  assumes "on_disk (copyTree src dst) c = (e, c')" and "wf_tree (files c)" and "dst \<noteq> []"
    and "is_dir (butlast dst) (files c)" and "src \<noteq> []"
  shows "only_under dst c c' \<and> (e = Some NotExist \<longrightarrow> node_at c src = None)"
proof -
  obtain d where d: "copyTree src dst (disk c) = (e, d)" and c': "c' = c\<lparr>disk := d\<rparr>"
    using assms(1) by (auto simp: on_disk_def Let_def split: prod.splits)
  have "confined dst (disk c) d \<and> (e = Some NotExist \<longrightarrow> map_of (tree (disk c)) src = None)"
    by (rule copyTree_confined [OF d]) (use assms in \<open>simp_all add: files_def\<close>)
  then show ?thesis by (simp add: c' confined_def only_under_def same_meta_def files_def node_at_def)
qed

lemma copy_store_exact:
  assumes "on_disk (copyTree src dst) c = (None, c')" and "wf_tree (files c)" and "dst \<noteq> []"
    and "is_dir (butlast dst) (files c)" and "src \<noteq> []" and "\<And>q. node_at c (dst @ q) = None"
  shows "node_at c' (dst @ q) = (case node_at c (src @ q) of None \<Rightarrow> None | Some n \<Rightarrow> copied (wall (disk c)) n)"
  using copyTree_exact [of src dst "disk c" "disk c'"] on_disk_tree [OF assms(1)] assms
  by (simp add: files_def node_at_def)

lemma copy_store_src:
  "on_disk (copyTree src dst) c = (None, c') \<Longrightarrow> faults (disk c) = [] \<Longrightarrow> node_at c src \<noteq> None"
  by (auto simp: on_disk_def copyTree_def node_at_def files_def Let_def split: prod.splits if_splits)

lemma copy_store_succeeds:
  assumes "faults (disk c) = []" and "wf_tree (files c)" and "dst \<noteq> []"
    and "is_dir (butlast dst) (files c)" and "\<And>q. node_at c (dst @ q) = None" and "src \<noteq> []"
    and "node_at c src \<noteq> None"
  shows "fst (on_disk (copyTree src dst) c) = None"
  using copyTree_succeeds [of "disk c" dst src] assms
  by (auto simp: on_disk_def Let_def files_def node_at_def split: prod.splits)

lemma remove_store:
  assumes "on_disk (RemoveAll p) c = (e, c')" and "wf_tree (files c)"
  shows "only_under p c c' \<and> (faults (disk c) = [] \<longrightarrow> (\<forall>q. node_at c' (p @ q) = None))"
  using RemoveAll_store [OF assms] by (auto simp: only_under_def)

section \<open>Booting\<close>

definition store_ok :: "store \<Rightarrow> bool" where
  "store_ok c \<longleftrightarrow> wf_tree (files c) \<and> faults (disk c) = [] \<and> (\<forall>p. 0 \<le> uses p c)"

definition absent :: "path \<Rightarrow> store \<Rightarrow> bool" where
  "absent p c \<longleftrightarrow> (\<forall>q. node_at c (p @ q) = None)"

text \<open>
  What others may do to a store while a run boots into \<open>rd\<close>: anything, as long as they leave \<open>rd\<close>, its
  parent and its mark alone.
\<close>

definition elsewhere :: "path \<Rightarrow> store \<Rightarrow> store \<Rightarrow> bool" where
  "elsewhere rd c c' \<longleftrightarrow> store_ok c' \<and> Root c' = Root c \<and> uses rd c' = uses rd c \<and>
     (is_dir (butlast rd) (files c) \<longrightarrow> is_dir (butlast rd) (files c')) \<and>
     (\<forall>q. node_at c' (rd @ q) = node_at c (rd @ q))"

lemma elsewhere_refl: "store_ok c \<Longrightarrow> elsewhere rd c c"
  by (simp add: elsewhere_def)

lemma butlast_not_under: "rd \<noteq> [] \<Longrightarrow> \<not> under rd (butlast rd)"
proof
  assume "rd \<noteq> []" and "under rd (butlast rd)"
  then obtain r where "butlast rd = rd @ r" by (auto simp: under_iff)
  then have "length rd - 1 = length rd + length r" by (metis length_append length_butlast)
  then show False using \<open>rd \<noteq> []\<close> by (cases rd) simp_all
qed

lemma is_dir_node: "is_dir p (files c) \<longleftrightarrow> p = [] \<or> (\<exists>m. node_at c p = Some (Dir m))"
  by (auto simp: node_at_def is_dir_def split: option.splits node.splits)

lemma only_under_parent:
  "only_under rd c c' \<Longrightarrow> rd \<noteq> [] \<Longrightarrow> is_dir (butlast rd) (files c) \<Longrightarrow> is_dir (butlast rd) (files c')"
  using only_under_at [OF _ butlast_not_under] by (auto simp: is_dir_node)

lemma only_under_meta: "only_under p c c' \<Longrightarrow> Root c' = Root c \<and> uses q c' = uses q c \<and> wall (disk c') = wall (disk c)"
  by (simp add: only_under_def same_meta_uses) (simp add: same_meta_def)

lemma only_under_ok:
  assumes "only_under p c c'" and "store_ok c" shows "store_ok c'"
proof -
  have "uses q c' = uses q c" for q using only_under_meta [OF assms(1)] by blast
  then show ?thesis using assms by (simp add: only_under_def store_ok_def same_meta_def)
qed

lemma mark_ok: "store_ok c \<Longrightarrow> store_ok (mark p c)"
  by (simp add: store_ok_def uses_mark add_nonneg_nonneg)

lemma unmark_ok: "store_ok c \<Longrightarrow> uses p c > 0 \<Longrightarrow> store_ok (unmark p c)"
  by (simp add: store_ok_def uses_unmark)

lemma Manifest_ok:
  "Manifest l slug c = (r, c') \<Longrightarrow> node_at c' = node_at c \<and> same_meta c c' \<and> (store_ok c \<longrightarrow> store_ok c') \<and>
   (\<forall>mf. r = Inr mf \<longrightarrow> genShape (MfGen mf))"
  using Manifest_read_only [of l slug c r c']
  by (auto simp: node_at_def store_ok_def same_meta_uses)
    (auto simp: same_meta_def Manifest_def split: prod.splits sum.splits io_error.splits option.splits if_splits)

text \<open>One attempt: the generation is marked while it is copied.\<close>

lemma copy_marked:
  assumes "store_ok c" and "is_dir (butlast rd) (files c)" and "absent rd c"
    and "\<not> under gen rd" and "\<not> under rd gen" and "rd \<noteq> []" and "gen \<noteq> []"
    and "on_disk (copyTree gen rd) (mark gen c) = (err, c1)"
  shows "store_ok (unmark gen c1) \<and> Root (unmark gen c1) = Root c \<and> uses rd (unmark gen c1) = uses rd c \<and>
    is_dir (butlast rd) (files (unmark gen c1)) \<and>
    (err = None \<longrightarrow> node_at c1 gen \<noteq> None \<and> (\<forall>q. node_at c1 (rd @ q) =
       (case node_at c1 (gen @ q) of None \<Rightarrow> None | Some n \<Rightarrow> copied (wall (disk c1)) n)))"
proof -
  let ?m = "mark gen c"
  have ok: "store_ok ?m" "wf_tree (files ?m)" using assms(1) mark_ok by (auto simp: store_ok_def)
  have p: "is_dir (butlast rd) (files ?m)" and a: "node_at ?m (rd @ q) = None" for q
    using assms(2,3) by (simp_all add: absent_def)
  have o: "only_under rd ?m c1" using copy_store [OF assms(8) ok(2) assms(6) p assms(7)] by blast
  have u: "uses gen c1 > 0"
    using only_under_meta [OF o, of gen] assms(1) by (simp add: uses_mark store_ok_def add_nonneg_pos)
  have ok1: "store_ok c1" using only_under_ok [OF o ok(1)] .
  have g: "gen \<noteq> rd" using assms(4) by auto
  have keep: "node_at c1 (gen @ q) = node_at c (gen @ q)" for q
    using only_under_at [OF o, of "gen @ q"] under_disjoint [OF assms(4,5), of "gen @ q"] by simp
  have "node_at c1 (rd @ q) = (case node_at c1 (gen @ q) of None \<Rightarrow> None | Some n \<Rightarrow> copied (wall (disk c1)) n)"
    if "err = None" for q
    using copy_store_exact [OF assms(8) [unfolded that] ok(2) assms(6) p assms(7) a] keep only_under_meta [OF o]
    by (simp cong: option.case_cong)
  moreover have "node_at c1 gen \<noteq> None" if "err = None"
    using copy_store_src [OF assms(8) [unfolded that]] assms(1) keep [of "[]"] by (simp add: store_ok_def)
  ultimately show ?thesis
    using unmark_ok [OF ok1 u] only_under_meta [OF o, of rd] u g only_under_parent [OF o assms(6) p]
    by (auto simp: uses_unmark uses_mark)
qed

text \<open>What the loop leaves behind: the complete copy of a generation, or nothing.\<close>

definition booted :: "lib \<Rightarrow> string \<Rightarrow> path \<Rightarrow> WarmManifest \<Rightarrow> store \<Rightarrow> bool" where
  "booted l slug rd mf c \<longleftrightarrow>
     (let gen = slugDir l c slug @ [MfGen mf]
      in node_at c gen \<noteq> None \<and> (\<forall>q. node_at c (rd @ q) =
           (case node_at c (gen @ q) of None \<Rightarrow> None | Some n \<Rightarrow> copied (wall (disk c)) n)))"

lemma elsewhere_trans: "elsewhere rd a b \<Longrightarrow> elsewhere rd b c \<Longrightarrow> elsewhere rd a c"
  by (simp add: elsewhere_def)

lemma elsewhere_paths:
  "elsewhere rd c c' \<Longrightarrow> slugDir l c' slug = slugDir l c slug \<and> runDir l c' i = runDir l c i"
  by (simp add: elsewhere_def slugDir_def runDir_def)

lemma touch_booted:
  assumes "store_ok c" and "rd = runDir l c i" and "genShape (MfGen mf)" and "booted l slug rd mf c"
  shows "booted l slug rd mf (touchLastUsed (slugDir l c slug) c)"
proof -
  let ?sd = "slugDir l c slug" and ?c = "touchLastUsed (slugDir l c slug) c"
  have o: "only_under (?sd @ [lastUsedFile]) c ?c" using touch_store assms(1) by (simp add: store_ok_def)
  have nl: "MfGen mf \<noteq> lastUsedFile"
    using assms(3) by (auto simp: genShape_def lastUsedFile_def HasPrefix_def)
  have "\<not> under (?sd @ [lastUsedFile]) (rd @ q)" "\<not> under (?sd @ [lastUsedFile]) (?sd @ MfGen mf # q)" for q
    using assms(2) nl by (auto simp: slugDir_def runDir_def under_iff)
  note only_under_at [OF o this(1)] only_under_at [OF o this(2)]
  moreover have "slugDir l ?c slug = ?sd" using only_under_meta [OF o] by (simp add: slugDir_def)
  ultimately show ?thesis using assms(4) only_under_meta [OF o] by (simp add: booted_def cong: option.case_cong)
qed

lemma boot_loop_complete:
  assumes "\<And>k c. store_ok c \<Longrightarrow> elsewhere rd c (others k c)"
    and "rd = runDir l c i" and "store_ok c" and "is_dir (butlast rd) (files c)" and "absent rd c"
    and "boot_loop l others k rd slug c = (r, c')"
  shows "store_ok c' \<and> Root c' = Root c \<and> uses rd c' = uses rd c \<and>
    (case r of Some (Inr mf) \<Rightarrow> booted l slug rd mf c' | _ \<Rightarrow> absent rd c' \<and> is_dir (butlast rd) (files c'))"
  using assms(2-6)
proof (induction k arbitrary: c)
  case (Suc k)
  have rd: "rd \<noteq> []" using Suc.prems(1) by (simp add: runDir_def)
  obtain m c1 where m: "Manifest l slug c = (m, c1)" by fastforce
  note c1 = Manifest_ok [OF m]
  have ok1: "store_ok c1" using c1 Suc.prems(2) by blast
  have e1: "elsewhere rd c c1"
    using c1 Suc.prems(2) same_meta_uses by (auto simp: elsewhere_def is_dir_node same_meta_def)
  show ?case
  proof (cases m)
    case (Inl e)
    then show ?thesis using Suc.prems(3-5) m e1 by (cases e) (auto simp: elsewhere_def absent_def)
  next
    case (Inr mf)
    define gen where "gen = slugDir l c slug @ [MfGen mf]"
    have e2: "elsewhere rd c (others k c1)" using elsewhere_trans [OF e1 assms(1) [OF ok1]] .
    have gr: "\<not> under gen rd" "\<not> under rd gen" "gen \<noteq> []"
      using Suc.prems(1) by (auto simp: gen_def slugDir_def runDir_def under_iff)
    have st2: "store_ok (others k c1)" "is_dir (butlast rd) (files (others k c1))" "absent rd (others k c1)"
      using e2 Suc.prems(3,4) by (auto simp: elsewhere_def absent_def)
    obtain err c4 where cp: "on_disk (copyTree gen rd) (mark gen (others k c1)) = (err, c4)" by fastforce
    define c5 where "c5 = unmark gen c4"
    note cm = copy_marked [OF st2 gr(1,2) rd gr(3) cp, folded c5_def]
    have m5: "Root c5 = Root c" "uses rd c5 = uses rd c" using cm e2 by (auto simp: elsewhere_def)
    then have s5: "slugDir l c5 slug = slugDir l c slug" "runDir l c5 i = runDir l c i"
      by (simp_all add: slugDir_def runDir_def)
    have s1: "slugDir l c1 slug = slugDir l c slug" using elsewhere_paths [OF e1] by blast
    obtain e6 c6 where rm: "on_disk (RemoveAll rd) c5 = (e6, c6)" by fastforce
    have o6: "only_under rd c5 c6" and a6: "absent rd c6"
      using remove_store [OF rm] cm by (auto simp: store_ok_def absent_def)
    have st6: "store_ok c6" "Root c6 = Root c" "uses rd c6 = uses rd c" "is_dir (butlast rd) (files c6)"
      using only_under_ok [OF o6] only_under_meta [OF o6, of rd] only_under_parent [OF o6 rd] cm m5 by auto
    have loop: "boot_loop l others (Suc k) rd slug c = (case err of
        None \<Rightarrow> (Some (Inr mf), touchLastUsed (slugDir l c5 slug) c5)
      | Some NotExist \<Rightarrow> boot_loop l others k rd slug c6
      | Some IOFail \<Rightarrow> (Some (Inl (ErrOther ''warm boot copy'')), c6))"
      using m Inr cp rm s1 by (cases err) (auto simp: c5_def gen_def Let_def split: io_error.splits)
    show ?thesis
    proof (cases err)
      case None
      have "booted l slug rd mf c5" using cm None s5 by (simp add: booted_def gen_def c5_def cong: option.case_cong)
      then have b: "booted l slug rd mf (touchLastUsed (slugDir l c5 slug) c5)"
        using touch_booted [of c5 rd l i mf slug] cm s5 Suc.prems(1) c1 Inr by simp
      have o: "only_under (slugDir l c5 slug @ [lastUsedFile]) c5 (touchLastUsed (slugDir l c5 slug) c5)"
        using touch_store cm by (simp add: store_ok_def)
      show ?thesis using Suc.prems(5) None b only_under_ok [OF o] only_under_meta [OF o, of rd] cm m5
        unfolding loop by auto
    next
      case (Some x)
      then show ?thesis
        using Suc.prems(1,5) st6 a6 Suc.IH [of c6] unfolding loop
        by (cases x) (auto simp: runDir_def)
    qed
  qed
qed auto

text \<open>The two directories \<open>Boot\<close> and \<open>BootEmpty\<close> make.\<close>

lemma runs_root:
  assumes "on_disk (MkdirAll (Root c @ [''runs'']) 448) c = (e, c1)" and "store_ok c" and "absent (runDir l c i) c"
  shows "store_ok c1 \<and> Root c1 = Root c \<and> uses p c1 = uses p c \<and> absent (runDir l c i) c1 \<and>
    (e = None \<longrightarrow> is_dir (butlast (runDir l c i)) (files c1))"
proof (cases e)
  case None
  note mk = mkdir_store [OF assms(1) [unfolded None]]
  have "\<not> under (runDir l c i @ q) (Root c @ [''runs''])" for q by (auto simp: runDir_def under_iff)
  then show ?thesis
    using mk assms(2,3) same_meta_uses [of c c1]
    by (auto simp: store_ok_def same_meta_def absent_def runDir_def butlast_append)
next
  case (Some x)
  note f = mkdir_store_fails [OF assms(1) [unfolded Some]]
  then show ?thesis
    using assms(2,3) Some same_meta_uses [of c c1]
    by (auto simp: store_ok_def same_meta_def absent_def node_at_def)
qed

lemma run_volume:
  assumes "on_disk (MkdirAll rd 448) c = (e, c1)" and "store_ok c" and "absent rd c" and "rd \<noteq> []"
    and "is_dir (butlast rd) (files c)"
  shows "store_ok c1 \<and> uses p c1 = uses p c \<and>
    (if e = None then \<forall>q. node_at c1 (rd @ q) = (if q = [] then Some (Dir 448) else None) else absent rd c1)"
proof (cases e)
  case None
  note mk = mkdir_store [OF assms(1) [unfolded None]]
  have "\<not> under (rd @ q) rd" if "q \<noteq> []" for q using that by (auto simp: under_iff)
  then show ?thesis
    using mk assms(2-4) None same_meta_uses [of c c1]
    by (auto simp: store_ok_def same_meta_def absent_def)
next
  case (Some x)
  note f = mkdir_store_fails [OF assms(1) [unfolded Some]]
  then show ?thesis
    using assms(2,3) Some same_meta_uses [of c c1]
    by (auto simp: store_ok_def same_meta_def absent_def node_at_def)
qed

lemma Boot_complete:
  assumes "rd = runDir l c i" and "\<And>k c. store_ok c \<Longrightarrow> elsewhere rd c (others k c)"
    and "store_ok c" and "absent rd c" and "Boot l others i slug c = (r, c')"
  shows "store_ok c' \<and> Root c' = Root c \<and> uses rd c' = uses rd c \<and>
    (case r of
       Inl e \<Rightarrow> absent rd c'
     | Inr (p, mf, True) \<Rightarrow> p = rd \<and> booted l slug rd mf c'
     | Inr (p, mf, False) \<Rightarrow> p = rd \<and> mf = no_manifest \<and>
         (\<forall>q. node_at c' (rd @ q) = (if q = [] then Some (Dir 448) else None)))"
proof -
  obtain e1 c1 where m: "on_disk (MkdirAll (Root c @ [''runs'']) 448) c = (e1, c1)" by fastforce
  note r1 = runs_root [OF m assms(3) assms(4) [unfolded assms(1)], folded assms(1)]
  have rd1: "rd = runDir l c1 i" "rd \<noteq> []" using r1 by (simp_all add: assms(1) runDir_def)
  obtain b c2 where b: "boot_loop l others 3 rd slug c1 = (b, c2)" by fastforce
  obtain e3 c3 where v: "on_disk (MkdirAll rd 448) c2 = (e3, c3)" by fastforce
  show ?thesis
  proof (cases e1)
    case (Some x)
    then show ?thesis using assms(5) m r1 by (auto simp: Boot_def)
  next
    case None
    have l2: "store_ok c2 \<and> Root c2 = Root c1 \<and> uses rd c2 = uses rd c1 \<and>
      (case b of Some (Inr mf) \<Rightarrow> booted l slug rd mf c2 | _ \<Rightarrow> absent rd c2 \<and> is_dir (butlast rd) (files c2))"
      by (rule boot_loop_complete [OF assms(2) rd1(1) _ _ _ b]) (use r1 None in auto)
    have r: "(r, c') = (case b of Some (Inl e) \<Rightarrow> (Inl e, c2) | Some (Inr mf) \<Rightarrow> (Inr (rd, mf, True), c2)
        | None \<Rightarrow> (case e3 of Some _ \<Rightarrow> (Inl (ErrOther ''warm volume''), c3)
           | None \<Rightarrow> (Inr (rd, no_manifest, False), c3)))"
      using assms(5) m None b v by (auto simp: Boot_def Let_def simp flip: rd1(1) split: option.splits sum.splits)
    show ?thesis
    proof (cases b)
      case b0: None
      have "Root c3 = Root c2" using v by (auto simp: on_disk_def Let_def split: prod.splits)
      then show ?thesis
        using run_volume [OF v _ _ rd1(2)] b0 l2 r r1 by (cases e3) auto
    next
      case (Some z)
      then show ?thesis using l2 r r1 by (cases z) auto
    qed
  qed
qed


lemma BootEmpty_ok:
  assumes "store_ok c" and "absent (runDir l c i) c" and "BootEmpty l i c = (r, c')"
  shows "store_ok c' \<and> uses (runDir l c i) c' = uses (runDir l c i) c \<and> Root c' = Root c \<and>
    (case r of Inl e \<Rightarrow> absent (runDir l c i) c' | Inr rd \<Rightarrow> rd = runDir l c i \<and>
       (\<forall>q. node_at c' (rd @ q) = (if q = [] then Some (Dir 448) else None)))"
proof -
  obtain e1 c1 where m: "on_disk (MkdirAll (Root c @ [''runs'']) 448) c = (e1, c1)" by fastforce
  note r1 = runs_root [OF m assms(1,2)]
  have rd: "runDir l c1 i = runDir l c i" "runDir l c i \<noteq> []" using r1 by (simp_all add: runDir_def)
  obtain e2 c2 where v: "on_disk (MkdirAll (runDir l c i) 448) c1 = (e2, c2)" by fastforce
  have R: "Root c2 = Root c1" using v by (auto simp: on_disk_def Let_def split: prod.splits)
  note r2 = run_volume [OF v _ _ rd(2)]
  have "runDir l c2 i = runDir l c i" using R r1 by (simp add: runDir_def)
  moreover have "(r, c') = (case e1 of Some _ \<Rightarrow> (Inl (ErrOther ''warm root''), c1)
      | None \<Rightarrow> (case e2 of Some _ \<Rightarrow> (Inl (ErrOther ''warm volume''), c2) | None \<Rightarrow> (Inr (runDir l c2 i), c2)))"
    using assms(3) m v rd(1) by (auto simp: BootEmpty_def split: option.splits)
  ultimately show ?thesis using rd r1 r2 R by (cases e1; cases e2) simp_all
qed

lemma Release_ok:
  assumes "store_ok c" and "uses (runDir l c i) c = 0"
  shows "store_ok (Release l i c) \<and> Root (Release l i c) = Root c \<and> absent (runDir l c i) (Release l i c) \<and>
    uses p (Release l i c) = uses p c"
proof -
  obtain e c' where r: "on_disk (RemoveAll (runDir l c i)) c = (e, c')" by fastforce
  have o: "only_under (runDir l c i) c c'" "absent (runDir l c i) c'"
    using remove_store [OF r] assms(1) by (auto simp: store_ok_def absent_def)
  then show ?thesis
    using r only_under_ok [OF o(1) assms(1)] only_under_meta [OF o(1), of p] assms(2)
    by (simp add: Release_def)
qed

section \<open>The interface of a run's volume\<close>

text \<open>
  What the manager's create, destroy and reap rely on when they give a run a volume and take it
  away: an allocation that fails leaves no volume, a release leaves none, and neither an allocation
  nor a release puts the volume to use. \<open>alloc\<close> is either way of booting a volume.
\<close>

locale volume_store =
  fixes alloc :: "string \<Rightarrow> 'c \<Rightarrow> (run_error + 'v) \<times> 'c"
    and release :: "string \<Rightarrow> 'c \<Rightarrow> 'c"
    and gone :: "string \<Rightarrow> 'c \<Rightarrow> bool"
    and idle :: "string \<Rightarrow> 'c \<Rightarrow> bool"
  assumes alloc_failed: "idle i c \<Longrightarrow> gone i c \<Longrightarrow> alloc i c = (Inl e, c') \<Longrightarrow> gone i c'"
    and alloc_idle: "idle i c \<Longrightarrow> gone i c \<Longrightarrow> alloc i c = (r, c') \<Longrightarrow> idle i c'"
    and release_gone: "idle i c \<Longrightarrow> gone i (release i c)"
    and release_idle: "idle i c \<Longrightarrow> idle i (release i c)"
begin

lemma alloc_release: "idle i c \<Longrightarrow> gone i c \<Longrightarrow> gone i (release i (snd (alloc i c)))"
  using alloc_idle release_gone by (metis prod.collapse)

lemma release_release: "idle i c \<Longrightarrow> gone i (release i (release i c))"
  by (simp add: release_gone release_idle)

end

definition no_volume :: "lib \<Rightarrow> string \<Rightarrow> store \<Rightarrow> bool" where
  "no_volume l i c \<longleftrightarrow> absent (runDir l c i) c"

definition idle_volume :: "lib \<Rightarrow> string \<Rightarrow> store \<Rightarrow> bool" where
  "idle_volume l i c \<longleftrightarrow> store_ok c \<and> uses (runDir l c i) c = 0"

text \<open>A boot that nobody disturbs.\<close>

abbreviation undisturbed :: "nat \<Rightarrow> store \<Rightarrow> store" where
  "undisturbed \<equiv> \<lambda>k c. c"

lemma Boot_undisturbed:
  assumes "store_ok c" and "absent (runDir l c i) c" and "Boot l undisturbed i slug c = (r, c')"
  shows "store_ok c' \<and> Root c' = Root c \<and> uses (runDir l c i) c' = uses (runDir l c i) c \<and>
    (\<forall>e. r = Inl e \<longrightarrow> absent (runDir l c i) c')"
  using Boot_complete [OF refl elsewhere_refl assms] by (auto split: sum.splits)

interpretation warm_boot: volume_store "\<lambda>i. Boot l undisturbed i slug" "Release l" "no_volume l" "idle_volume l"
  for l slug
proof
  fix i c e c' r
  assume i: "idle_volume l i c"
  show "no_volume l i (Release l i c)" "idle_volume l i (Release l i c)"
    using Release_ok [of c l i] i by (auto simp: no_volume_def idle_volume_def runDir_def)
  assume n: "no_volume l i c"
  show "no_volume l i c'" if "Boot l undisturbed i slug c = (Inl e, c')"
    using Boot_undisturbed [OF _ _ that] i n by (auto simp: no_volume_def idle_volume_def runDir_def)
  show "idle_volume l i c'" if "Boot l undisturbed i slug c = (r, c')"
    using Boot_undisturbed [OF _ _ that] i n by (auto simp: no_volume_def idle_volume_def runDir_def)
qed

interpretation empty_boot: volume_store "BootEmpty l" "Release l" "no_volume l" "idle_volume l"
  for l
proof
  fix i c e c' r
  assume i: "idle_volume l i c"
  show "no_volume l i (Release l i c)" "idle_volume l i (Release l i c)"
    using i by (rule warm_boot.release_gone warm_boot.release_idle)+
  assume n: "no_volume l i c"
  show "no_volume l i c'" if "BootEmpty l i c = (Inl e, c')"
    using BootEmpty_ok [OF _ _ that] i n by (auto simp: no_volume_def idle_volume_def runDir_def)
  show "idle_volume l i c'" if "BootEmpty l i c = (r, c')"
    using BootEmpty_ok [OF _ _ that] i n by (auto simp: no_volume_def idle_volume_def runDir_def)
qed

section \<open>Commit, then boot\<close>

lemma read_file:
  assumes "node_at c p = Some (File m s w)" and "faults (disk c) = []"
  shows "on_disk (OS_ReadFile p) c = (Inr s, c)"
proof -
  have "follow 40 p (files c) = Some (File m s w)"
    using assms(1) by (simp add: node_at_def numeral_eq_Suc)
  then show ?thesis using assms(2)
    by (cases c) (simp add: on_disk_def OS_ReadFile_def Stat_def files_def Let_def)
qed

lemma same_meta_ok: "same_meta c c' \<Longrightarrow> files c' = files c \<Longrightarrow> store_ok c \<Longrightarrow> store_ok c'"
  using same_meta_uses [of c c'] by (auto simp: store_ok_def same_meta_def)

lemma lock_lines_read_only: "lock_lines l dir names c = (r, c') \<Longrightarrow> files c' = files c \<and> same_meta c c'"
proof (induction names arbitrary: c r c')
  case (Cons name names)
  obtain x c1 where x: "on_disk (OS_ReadFile (dir @ [name])) c = (x, c1)" by fastforce
  note r1 = read_only [OF disjI1 [OF x]]
  obtain y c2 where y: "lock_lines l dir names c1 = (y, c2)" by fastforce
  have c': "c' = c1 \<or> c' = c2"
    using Cons.prems x y by (auto split: sum.splits io_error.splits)
  have "files c2 = files c" using r1 Cons.IH [OF y] by simp
  moreover have "same_meta c c2" using r1 Cons.IH [OF y] same_meta_trans by blast
  ultimately show ?case using c' r1 by auto
qed simp

lemma LockHash_read_only:
  assumes "LockHash l vol c = (r, c')" shows "files c' = files c \<and> same_meta c c'"
proof -
  obtain d rd c1 where d: "detectRepoDir vol c = ((d, rd), c1)" by (metis prod.collapse)
  have 1: "files c1 = files c \<and> same_meta c c1"
    using d read_only [OF disjI2]
    by (auto simp: detectRepoDir_def split: if_splits prod.splits sum.splits list.splits)
  obtain x c2 where x: "lock_lines l d lockfiles c1 = (x, c2)" by fastforce
  have "c' = c2" using assms d x by (auto simp: LockHash_def Let_def split: sum.splits)
  then show ?thesis using 1 lock_lines_read_only [OF x] same_meta_trans by auto
qed

lemma under_repos: "under (slugDir l c slug) q \<Longrightarrow> \<not> under (Root c @ [''runs'']) q"
  by (auto simp: slugDir_def under_iff)

lemma writeManifest_ok:
  assumes "writeManifest l sd mf c = (None, c')" and "wf_tree (files c)"
  shows "only_under sd c c' \<and> (\<exists>m w. node_at c' (sd @ [manifestFile]) = Some (File m (json_enc l mf) w)) \<and>
    (\<forall>g q. genShape g \<longrightarrow> node_at c' (sd @ g # q) = node_at c (sd @ g # q))"
proof -
  define tmp where "tmp = sd @ [manifestFile @ ''.tmp-'' @ MfGen mf]"
  obtain c1 where w: "on_disk (OS_WriteFile tmp (json_enc l mf) 384) c = (None, c1)"
    and r: "on_disk (Rename tmp (sd @ [manifestFile])) c1 = (None, c')"
    using assms(1) by (auto simp: writeManifest_def tmp_def Let_def split: prod.splits option.splits)
  note ws = write_store [OF w assms(2)]
  have wf1: "wf_tree (files c1)" using ws by (simp add: tmp_def)
  note rs = Rename_store [OF r wf1]
  have at: "node_at c' q = node_at c q" if "\<not> under (sd @ [manifestFile]) q" "\<not> under tmp q" for q
  proof -
    have "q \<noteq> tmp" using that(2) by auto
    then show ?thesis using rs [of q] ws that by (simp add: tmp_def)
  qed
  have "node_at c' q = node_at c q" if "\<not> under sd q" for q
    by (rule at) (use that in \<open>auto simp: tmp_def under_iff\<close>)
  moreover have "node_at c' (sd @ g # q) = node_at c (sd @ g # q)" if "genShape g" for g q
    by (rule at) (use that in \<open>auto simp: tmp_def under_iff manifestFile_def genShape_def HasPrefix_def\<close>)
  moreover have "same_meta c c'" using ws rs same_meta_trans by (simp add: tmp_def) blast
  ultimately show ?thesis using rs [of "sd @ [manifestFile]"] ws by (auto simp: only_under_def tmp_def)
qed

lemma commit_publishE:
  assumes "commit_publish l ulid now i slug c = (Inr mf, c')"
    and "rd = runDir l c i" and "sd = slugDir l c slug" and "gen = ''g-'' @ ToLower (unicode_lower l) ulid"
  obtains h c1 c2 c4 c6 where "LockHash l rd c = (Inr h, c1)" and "on_disk (MkdirAll sd 448) c1 = (None, c2)"
    and "on_disk (copyTree rd (sd @ [gen])) (mark rd (mark (sd @ [gen]) c2)) = (None, c4)"
    and "writeManifest l sd mf (unmark rd c4) = (None, c6)" and "c' = unmark (sd @ [gen]) c6"
    and "MfGen mf = gen" and "MfRepo mf = slug"
proof -
  obtain h d c1 where h: "LockHash l rd c = (Inr (h, d), c1)"
    using assms(1,2) by (auto simp: commit_publish_def Let_def split: prod.splits sum.splits)
  have sd1: "slugDir l c1 slug = sd" using LockHash_read_only [OF h] assms(3) by (simp add: same_meta_def slugDir_def)
  obtain c2 where mk: "on_disk (MkdirAll sd 448) c1 = (None, c2)"
    using assms(1) h sd1 by (auto simp: commit_publish_def assms(2) [symmetric] Let_def split: prod.splits option.splits)
  obtain c4 where cp: "on_disk (copyTree rd (sd @ [gen])) (mark rd (mark (sd @ [gen]) c2)) = (None, c4)"
    using assms(1) h sd1 mk by (auto simp: commit_publish_def assms(2) [symmetric] assms(4) Let_def split: prod.splits option.splits)
  obtain c6 where "writeManifest l sd mf (unmark rd c4) = (None, c6)" "c' = unmark (sd @ [gen]) c6" "MfGen mf = gen" "MfRepo mf = slug"
    using assms(1) h sd1 mk cp
    by (auto simp: commit_publish_def assms(2) [symmetric] assms(4) Let_def split: prod.splits option.splits)
  then show thesis using that [OF h mk cp] by blast
qed

lemma commit_publish_ok:
  assumes "commit_publish l ulid now i slug c = (Inr mf, c')" and "store_ok c"
    and "gen = ''g-'' @ ToLower (unicode_lower l) ulid" and "genShape gen" and "absent (slugDir l c slug @ [gen]) c"
  shows "store_ok c' \<and> Root c' = Root c \<and> MfGen mf = gen \<and> MfRepo mf = slug \<and> wall (disk c') = wall (disk c) \<and>
    (\<exists>m w. node_at c' (slugDir l c slug @ [manifestFile]) = Some (File m (json_enc l mf) w)) \<and>
    node_at c (runDir l c i) \<noteq> None \<and>
    (\<forall>q. node_at c' (slugDir l c slug @ gen # q) =
      (case node_at c (runDir l c i @ q) of None \<Rightarrow> None | Some n \<Rightarrow> copied (wall (disk c)) n)) \<and>
    (\<forall>q. under (Root c @ [''runs'']) q \<longrightarrow> node_at c' q = node_at c q)"
proof -
  define rd where "rd = runDir l c i"
  define sd where "sd = slugDir l c slug"
  define genDir where "genDir = sd @ [gen]"
  obtain h c1 c2 c4 c6 where h: "LockHash l rd c = (Inr h, c1)" and mk: "on_disk (MkdirAll sd 448) c1 = (None, c2)"
    and cp: "on_disk (copyTree rd genDir) (mark rd (mark genDir c2)) = (None, c4)"
    and w: "writeManifest l sd mf (unmark rd c4) = (None, c6)" and c': "c' = unmark genDir c6"
    and mf: "MfGen mf = gen" "MfRepo mf = slug"
    using commit_publishE [OF assms(1) rd_def sd_def assms(3)] unfolding genDir_def by metis
  note r1 = LockHash_read_only [OF h]
  define c3 where "c3 = mark rd (mark genDir c2)"
  define c5 where "c5 = unmark rd c4"
  note cp = cp [folded c3_def] and w = w [folded c5_def]
  have ok1: "store_ok c1" using same_meta_ok r1 assms(2) by blast
  note m2 = mkdir_store [OF mk]
  have wf1: "wf_tree (files c1)" using ok1 by (simp add: store_ok_def)
  have meta2: "Root c2 = Root c" "wall (disk c2) = wall (disk c)" "uses p c2 = uses p c" "faults (disk c2) = []" for p
    using m2 [OF wf1] r1 same_meta_uses [of c c1 p] same_meta_uses [of c1 c2 p] assms(2)
    by (auto simp: same_meta_def store_ok_def)
  have n2: "node_at c2 q = node_at c q" if "\<not> under q sd" for q
    using m2 [OF wf1] r1 that by (simp add: node_at_def)
  have ne: "rd \<noteq> []" "genDir \<noteq> []" "rd \<noteq> genDir" by (auto simp: rd_def genDir_def sd_def slugDir_def runDir_def)
  have run: "\<not> under q sd" "\<not> under genDir q" "\<not> under sd q" if "under (Root c @ [''runs'']) q" for q
    using that by (auto simp: genDir_def sd_def slugDir_def under_iff)
  have rdu: "under (Root c @ [''runs'']) (rd @ q)" for q by (simp add: rd_def runDir_def under_iff)
  have a3: "node_at c3 (genDir @ q) = None" for q
    using n2 [of "genDir @ q"] assms(5) by (auto simp: c3_def absent_def genDir_def sd_def under_iff)
  have wf3: "wf_tree (files c3)" and p3: "is_dir (butlast genDir) (files c3)"
    using m2 [OF wf1] by (simp_all add: c3_def genDir_def)
  have f3: "faults (disk c3) = []" "wall (disk c3) = wall (disk c)" using meta2 by (simp_all add: c3_def)
  have r3: "node_at c3 q = node_at c q" if "under (Root c @ [''runs'']) q" for q
    using n2 run(1) that by (simp add: c3_def)
  have o4: "only_under genDir c3 c4" using copy_store [OF cp wf3 ne(2) p3 ne(1)] by blast
  note x4 = copy_store_exact [OF cp wf3 ne(2) p3 ne(1) a3]
  have o6: "only_under sd c5 c6" and m6: "\<exists>m w. node_at c6 (sd @ [manifestFile]) = Some (File m (json_enc l mf) w)"
    and g6: "node_at c6 (sd @ gen # q) = node_at c5 (sd @ gen # q)" for q
    using writeManifest_ok [OF w] only_under_def o4 assms(4) by (auto simp: c5_def)
  have u: "uses p c4 = uses p c3" "uses p c6 = uses p c5" for p
    using only_under_meta [OF o4] only_under_meta [OF o6] by blast+
  have pos: "0 \<le> uses p c" for p using assms(2) by (simp add: store_ok_def)
  have u3: "uses p c3 = uses p c + (if p = rd \<or> p = genDir then 1 else 0)" for p
    using ne meta2 by (simp add: c3_def uses_mark)
  have u5: "uses p c5 = uses p c + (if p = genDir then 1 else 0)" for p
    using u(1) u3 pos [of rd] ne by (simp add: c5_def uses_unmark)
  have u': "uses p c' = uses p c" for p
    using u(2) u5 pos [of genDir] by (simp add: c' uses_unmark)
  have "node_at c' q = node_at c q" if "under (Root c @ [''runs'']) q" for q
    using only_under_at [OF o6 run(3) [OF that]] only_under_at [OF o4 run(2) [OF that]] r3 [OF that]
    by (simp add: c' c5_def)
  moreover have "node_at c rd \<noteq> None" using copy_store_src [OF cp f3(1)] r3 [OF rdu [of "[]"]] by simp
  moreover have "node_at c' (sd @ gen # q) =
      (case node_at c (rd @ q) of None \<Rightarrow> None | Some n \<Rightarrow> copied (wall (disk c)) n)" for q
    using x4 [of q] g6 [of q] r3 [OF rdu] f3(2) by (simp add: c' c5_def genDir_def cong: option.case_cong)
  moreover have "store_ok c'"
    using u' pos only_under_def o6 only_under_sound [OF o6] only_under_sound [OF o4] f3(1)
    by (auto simp: store_ok_def c' c5_def)
  moreover have "Root c' = Root c" "wall (disk c') = wall (disk c)"
    using only_under_meta [OF o6] only_under_meta [OF o4] meta2 by (simp_all add: c' c5_def c3_def)
  ultimately show ?thesis using m6 mf by (simp add: rd_def sd_def c')
qed

text \<open>An undisturbed cleanup keeps the current generation, the manifest and everything elsewhere.\<close>

lemma cleanGenerations_current:
  assumes "store_ok c" and "node_at c (sd @ [manifestFile]) = Some (File m s w)"
    and "json_dec l s = Some mf" and "genShape (MfGen mf)"
  shows "only_under sd c (cleanGenerations l (\<lambda>c. c) sd c) \<and>
    node_at (cleanGenerations l (\<lambda>c. c) sd c) (sd @ [manifestFile]) = Some (File m s w) \<and>
    node_at (cleanGenerations l (\<lambda>c. c) sd c) (sd @ MfGen mf # q) = node_at c (sd @ MfGen mf # q)"
proof -
  have f: "faults (disk c) = []" and wf: "wf_tree (files c)" using assms(1) by (simp_all add: store_ok_def)
  obtain r c1 where d: "on_disk (ReadDir sd) c = (r, c1)" by fastforce
  note d1 = read_only [OF disjI2 [OF d]]
  have n1: "node_at c1 = node_at c" using d1 by (simp add: node_at_def fun_eq_iff)
  have wf1: "wf_tree (files c1)" using d1 wf by simp
  have cl: "cleanGenerations l (\<lambda>c. c) sd c = (case r of Inl e \<Rightarrow> c1 | Inr names \<Rightarrow> fold (clean_entry sd (MfGen mf)) names c1)"
    using read_file [OF assms(2) f] assms(3) d by (simp add: cleanGenerations_def manifestFromDir_def split: sum.splits)
  have t: "manifestFile \<noteq> ''t-'' @ name" for name by (simp add: manifestFile_def)
  have "node_at (fold (clean_entry sd (MfGen mf)) names c1) (sd @ MfGen mf # q) = node_at c1 (sd @ MfGen mf # q)" for names
    by (rule clean_fold_protects [OF wf1 assms(4)]) (auto simp: under_iff)
  moreover have "node_at (fold (clean_entry sd (MfGen mf)) names c1) (sd @ [manifestFile]) = Some (File m s w)" for names
    by (rule clean_fold_file [OF wf1]) (use assms(2) n1 t in simp_all)
  moreover have "only_under sd c (fold (clean_entry sd (MfGen mf)) names c1)" for names
  proof -
    note fr = clean_fold_frame [OF wf1, of sd "MfGen mf" names]
    then have "same_meta c (fold (clean_entry sd (MfGen mf)) names c1)" using d1 same_meta_trans by blast
    then show ?thesis using fr n1 by (simp add: only_under_def)
  qed
  ultimately show ?thesis using cl d1 n1 wf1 assms(2) by (cases r) (simp_all add: only_under_def)
qed

text \<open>A boot from a good template, step by step.\<close>

lemma Boot_good:
  assumes "store_ok c" and "absent (runDir l c j) c" and "is_dir (Root c @ [''runs'']) (files c)"
    and "node_at c (slugDir l c slug @ [manifestFile]) = Some (File m s w)" and "json_dec l s = Some mf"
    and "MfRepo mf \<noteq> []" and "genShape (MfGen mf)" and "gen = slugDir l c slug @ [MfGen mf]" and "node_at c gen \<noteq> None"
  shows "\<exists>c'. Boot l undisturbed j slug c = (Inr (runDir l c j, mf, True), c') \<and>
    (\<forall>q. node_at c' (runDir l c j @ q) =
      (case node_at c (gen @ q) of None \<Rightarrow> None | Some n \<Rightarrow> copied (wall (disk c)) n))"
proof -
  define rd where "rd = runDir l c j"
  have f: "faults (disk c) = []" and wf: "wf_tree (files c)" using assms(1) by (simp_all add: store_ok_def)
  have "fst (MkdirAll (Root c @ [''runs'']) 448 (disk c)) = None"
    using MkdirAll_succeeds [OF f, of "Root c @ [''runs'']"] wf assms(3) wf_treeD [OF wf, of "Root c @ [''runs'']"]
    by (auto simp: files_def is_dir_Some)
  then obtain c1 where mk: "on_disk (MkdirAll (Root c @ [''runs'']) 448) c = (None, c1)"
    by (cases "MkdirAll (Root c @ [''runs'']) 448 (disk c)") (auto simp: on_disk_def)
  note r1 = runs_root [OF mk assms(1,2), folded rd_def]
  have "node_at c q \<noteq> None" if "q \<noteq> []" "under q (Root c @ [''runs''])" for q
    using wf_tree_no_orphan [OF wf _ that] assms(3)
    by (cases "map_of (files c) q") (auto simp: node_at_def is_dir_Some)
  then have n1: "node_at c1 = node_at c" using mkdir_store [OF mk wf] by (auto simp: fun_eq_iff)
  have ok1: "store_ok c1" "is_dir (butlast rd) (files c1)" "absent rd c1" and R1: "Root c1 = Root c" using r1 by auto
  have sd: "slugDir l c1 slug = slugDir l c slug" "runDir l c1 j = rd" using R1 by (simp_all add: slugDir_def runDir_def rd_def)
  have "Manifest l slug c1 = (Inr mf, c1)"
    using read_file [of c1 "slugDir l c1 slug @ [manifestFile]"] n1 sd assms(4-7) ok1(1)
    by (simp add: Manifest_def store_ok_def)
  have gr: "\<not> under gen rd" "\<not> under rd gen" "rd \<noteq> []" "gen \<noteq> []"
    by (auto simp: assms(8) rd_def slugDir_def runDir_def under_iff)
  let ?m = "mark gen c1"
  have okm: "store_ok ?m" using mark_ok ok1(1) .
  have cs: "fst (on_disk (copyTree gen rd) ?m) = None"
    by (rule copy_store_succeeds) (use okm ok1 gr assms(9) n1 in \<open>auto simp: store_ok_def absent_def\<close>)
  then obtain c2 where cp: "on_disk (copyTree gen rd) ?m = (None, c2)" by (metis prod.collapse)
  have x: "node_at c2 (rd @ q) = (case node_at ?m (gen @ q) of None \<Rightarrow> None | Some n \<Rightarrow> copied (wall (disk ?m)) n)" for q
    by (rule copy_store_exact [OF cp]) (use okm ok1 gr in \<open>auto simp: store_ok_def absent_def\<close>)
  have o2: "only_under rd ?m c2" using copy_store [OF cp] okm ok1 gr by (simp add: store_ok_def)
  have w: "wall (disk c1) = wall (disk c)" using mkdir_store [OF mk wf] by (simp add: same_meta_def)
  define c' where "c' = touchLastUsed (slugDir l c slug) (unmark gen c2)"
  have "Root c2 = Root c1" using only_under_meta [OF o2] by simp
  then have "Boot l undisturbed j slug c = (Inr (rd, mf, True), c')"
    using mk \<open>Manifest l slug c1 = _\<close> cp sd assms(8)
    by (simp add: Boot_def numeral_3_eq_3 c'_def slugDir_def runDir_def Let_def R1)
  moreover have "node_at c' (rd @ q) = node_at c2 (rd @ q)" for q
  proof -
    have "only_under (slugDir l c slug @ [lastUsedFile]) (unmark gen c2) c'"
      unfolding c'_def by (rule touch_store) (use o2 in \<open>simp add: only_under_def\<close>)
    from only_under_at [OF this, of "rd @ q"] show ?thesis by (simp add: rd_def slugDir_def runDir_def under_iff)
  qed
  ultimately show ?thesis using x n1 w by (auto simp: rd_def cong: option.case_cong)
qed


text \<open>Whatever becomes of a commit, it leaves a sound store and every mark as it was.\<close>

definition keeps :: "store \<Rightarrow> store \<Rightarrow> bool" where
  "keeps c c' \<longleftrightarrow> store_ok c' \<and> Root c' = Root c \<and> (\<forall>p. uses p c' = uses p c)"

lemma keeps_trans: "keeps a b \<Longrightarrow> keeps b c \<Longrightarrow> keeps a c"
  by (simp add: keeps_def)

lemma keeps_only_under: "only_under p c c' \<Longrightarrow> store_ok c \<Longrightarrow> keeps c c'"
  using only_under_ok only_under_meta by (auto simp: keeps_def)

lemma keeps_meta: "same_meta c c' \<Longrightarrow> wf_tree (files c') \<Longrightarrow> store_ok c \<Longrightarrow> keeps c c'"
  using same_meta_uses [of c c'] by (auto simp: keeps_def store_ok_def same_meta_def)

lemma keeps_remove: "store_ok c \<Longrightarrow> keeps c (snd (on_disk (RemoveAll p) c))"
  using remove_store [of p c "fst (on_disk (RemoveAll p) c)" "snd (on_disk (RemoveAll p) c)"]
  by (auto simp: store_ok_def intro: keeps_only_under [unfolded store_ok_def])

lemma keeps_write:
  assumes "on_disk (OS_WriteFile p s perm) c = (e, c')" and "p \<noteq> []" and "store_ok c" shows "keeps c c'"
  using write_store [OF assms(1) _ assms(2)] assms(3) by (auto simp: store_ok_def intro: keeps_meta [unfolded store_ok_def])

lemma writeManifest_keeps:
  assumes "writeManifest l sd mf c = (e, c')" and "store_ok c" shows "keeps c c'"
proof -
  define tmp where "tmp = sd @ [manifestFile @ ''.tmp-'' @ MfGen mf]"
  obtain e1 c1 where w: "on_disk (OS_WriteFile tmp (json_enc l mf) 384) c = (e1, c1)" by fastforce
  have k1: "keeps c c1" by (rule keeps_write [OF w _ assms(2)]) (simp add: tmp_def)
  then have ok1: "store_ok c1" by (simp add: keeps_def)
  obtain e2 c2 where r: "on_disk (Rename tmp (sd @ [manifestFile])) c1 = (e2, c2)" by fastforce
  have k2: "keeps c1 c2"
  proof (cases e2)
    case None
    show ?thesis using Rename_store [OF r [unfolded None]] ok1 by (auto simp: store_ok_def intro: keeps_meta [unfolded store_ok_def])
  next
    case (Some x)
    have "files c2 = files c1 \<and> same_meta c1 c2" by (rule Rename_failed) (use r Some in simp)
    then show ?thesis using ok1 by (auto simp: store_ok_def intro: keeps_meta [unfolded store_ok_def])
  qed
  then have k: "keeps c c2" "store_ok c2" using k1 keeps_trans keeps_def by blast+
  have "c' = c1 \<or> c' = c2 \<or> c' = snd (on_disk (RemoveAll tmp) c2)"
    using assms(1) w [unfolded tmp_def] r [unfolded tmp_def] unfolding tmp_def
    by (auto simp: writeManifest_def Let_def split: option.splits)
  then show ?thesis using k k1 keeps_remove keeps_trans by blast
qed

lemma commit_publish_keeps:
  assumes "commit_publish l ulid now i slug c = (r, c')" and "store_ok c" shows "keeps c c'"
proof -
  define rd where "rd = runDir l c i"
  define sd where "sd = slugDir l c slug"
  define g where "g = sd @ [''g-'' @ ToLower (unicode_lower l) ulid]"
  obtain h c1 where h: "LockHash l rd c = (h, c1)" by fastforce
  note r1 = LockHash_read_only [OF h]
  have k1: "keeps c c1" using r1 assms(2) by (auto simp: store_ok_def intro: keeps_meta [unfolded store_ok_def])
  have sd1: "slugDir l c1 slug = sd" using r1 by (simp add: same_meta_def slugDir_def sd_def)
  have wf1: "wf_tree (files c1)" and ok1: "store_ok c1" using k1 by (auto simp: keeps_def store_ok_def)
  obtain e2 c2 where mk: "on_disk (MkdirAll sd 448) c1 = (e2, c2)" by fastforce
  have k2: "keeps c1 c2"
    using mkdir_store [of sd 448 c1 c2] mkdir_store_fails [of sd 448 c1 _ c2] mk wf1 ok1 keeps_meta by (cases e2) auto
  define c3 where "c3 = mark rd (mark g c2)"
  obtain e4 c4 where cp: "on_disk (copyTree rd g) c3 = (e4, c4)" by fastforce
  define c5 where "c5 = unmark rd c4"
  show ?thesis
  proof (cases "(\<exists>e. h = Inl e) \<or> (\<exists>e. e2 = Some e)")
    case True
    then have "c' = c1 \<or> c' = c2"
      using assms(1) h mk sd1 by (auto simp: commit_publish_def rd_def [symmetric] Let_def split: sum.splits)
    then show ?thesis using k1 k2 keeps_trans by blast
  next
    case False
    then obtain hash repoDir where h': "h = Inr (hash, repoDir)" and e2: "e2 = None" by (cases h; cases e2) auto
    have ne: "rd \<noteq> []" "g \<noteq> []" "rd \<noteq> g" by (auto simp: rd_def g_def sd_def slugDir_def runDir_def)
    have ok3: "store_ok c3" using k2 mark_ok by (simp add: c3_def keeps_def)
    have p3: "is_dir (butlast g) (files c3)" using mkdir_store [OF mk [unfolded e2] wf1] by (simp add: c3_def g_def)
    have o4: "only_under g c3 c4" using copy_store [OF cp _ ne(2) p3 ne(1)] ok3 by (simp add: store_ok_def)
    have ok4: "store_ok c4" using only_under_ok [OF o4 ok3] .
    have "store_ok c2" using k2 by (simp add: keeps_def)
    then have pos: "0 \<le> uses p c2" for p by (simp add: store_ok_def)
    have u4: "uses p c4 = uses p c2 + (if p = rd \<or> p = g then 1 else 0)" for p
      using only_under_meta [OF o4] ne by (simp add: c3_def uses_mark)
    have ok5: "store_ok c5" unfolding c5_def by (rule unmark_ok [OF ok4]) (use u4 [of rd] pos [of rd] in simp)
    have u5: "uses p c5 = uses p c2 + (if p = g then 1 else 0)" for p
      using u4 pos [of rd] ne by (simp add: c5_def uses_unmark)
    have R5: "Root c5 = Root c2" using only_under_meta [OF o4] by (simp add: c5_def c3_def)
    have fin: "keeps c2 (unmark g c6)" if "keeps c5 c6" for c6
    proof -
      have u6: "uses p c6 = uses p c5" for p using that by (simp add: keeps_def)
      have "store_ok (unmark g c6)"
        by (rule unmark_ok) (use that u6 u5 [of g] pos [of g] in \<open>auto simp: keeps_def\<close>)
      then show ?thesis using that u6 u5 pos [of g] R5 by (auto simp: keeps_def uses_unmark)
    qed
    have "\<exists>c6. keeps c5 c6 \<and> (c' = unmark g c6 \<or> c' = snd (on_disk (RemoveAll g) (unmark g c6)))"
    proof (cases e4)
      case (Some x)
      then have "c' = snd (on_disk (RemoveAll g) (unmark g c5))"
        using assms(1) h h' mk e2 sd1 cp by (simp add: commit_publish_def rd_def [symmetric] Let_def g_def c3_def c5_def)
      moreover have "keeps c5 c5" using ok5 by (simp add: keeps_def)
      ultimately show ?thesis by blast
    next
      case None
      obtain mf where mf: "mf = \<lparr>MfRepo = slug, MfLockHash = hash, MfRepoDir = repoDir,
          MfGen = ''g-'' @ ToLower (unicode_lower l) ulid, MfCreatedAt = now\<rparr>" by blast
      obtain e6 c6 where w: "writeManifest l sd mf c5 = (e6, c6)" by fastforce
      have "c' = unmark g c6 \<or> c' = snd (on_disk (RemoveAll g) (unmark g c6))"
        using assms(1) h h' mk e2 sd1 cp None w
        by (auto simp: commit_publish_def rd_def [symmetric] Let_def g_def c3_def c5_def mf split: option.splits)
      then show ?thesis using writeManifest_keeps [OF w ok5] by blast
    qed
    then show ?thesis using fin k1 k2 keeps_remove keeps_trans keeps_def by metis
  qed
qed

lemma cleanGenerations_keeps:
  assumes "store_ok c" shows "keeps c (cleanGenerations l (\<lambda>c. c) sd c)"
proof -
  obtain mf c1 where m: "manifestFromDir l sd c = (mf, c1)" by fastforce
  obtain r c2 where d: "on_disk (ReadDir sd) c1 = (r, c2)" by fastforce
  have f: "files c2 = files c" "same_meta c c2"
    using manifestFromDir_read_only [OF m] read_only [OF disjI2 [OF d]] same_meta_trans by (simp, blast)
  have wf: "wf_tree (files c2)" using f assms by (simp add: store_ok_def)
  have k2: "keeps c c2" using keeps_meta [OF f(2) wf assms] .
  have "keeps c2 (fold (clean_entry sd cur) names c2)" for cur names
    using clean_fold_frame [OF wf, of sd cur names] keeps_meta k2 by (auto simp: keeps_def)
  then have "keeps c (fold (clean_entry sd cur) names c2)" for cur names using k2 keeps_trans by blast
  then show ?thesis using k2 m d by (simp add: cleanGenerations_def split: sum.splits)
qed

lemma Commit_keeps:
  assumes "Commit l (\<lambda>c. c) ulid now i slug c = (r, c')" and "store_ok c" shows "keeps c c'"
proof -
  obtain x c1 where p: "commit_publish l ulid now i slug c = (x, c1)" by fastforce
  note k1 = commit_publish_keeps [OF p assms(2)]
  have k2: "keeps c1 (cleanGenerations l (\<lambda>c. c) sd c1)" for sd
    by (rule cleanGenerations_keeps) (use k1 in \<open>simp add: keeps_def\<close>)
  have "keeps (cleanGenerations l (\<lambda>c. c) sd c1) (touchLastUsed sd (cleanGenerations l (\<lambda>c. c) sd c1))" for sd
    by (rule keeps_only_under [OF touch_store]) (use k2 [of sd] in \<open>auto simp: keeps_def store_ok_def\<close>)
  then have "keeps c (touchLastUsed sd (cleanGenerations l (\<lambda>c. c) sd c1))" for sd
    using k1 k2 keeps_trans by blast
  then show ?thesis using assms(1) p k1 by (auto simp: Commit_def split: sum.splits)
qed

text \<open>A library in which a manifest is five fields separated by a zero byte.\<close>

definition demo_json :: lib where
  "demo_json = \<lparr>unicode_lower = (\<lambda>s. s), sha256hex = (\<lambda>s. s),
     json_enc = (\<lambda>mf. Join [CHR 0x00] [MfRepo mf, MfLockHash mf, MfRepoDir mf, MfGen mf, show_int (MfCreatedAt mf)]),
     json_dec = (\<lambda>s. case Split (CHR 0x00) s of
         [r, h, d, g, t] \<Rightarrow> map_option (\<lambda>n. \<lparr>MfRepo = r, MfLockHash = h, MfRepoDir = d, MfGen = g, MfCreatedAt = n\<rparr>)
           (parse_digits t)
       | _ \<Rightarrow> None)\<rparr>"

definition two_runs :: store where
  "two_runs = \<lparr>Root = [], MaxBytes = 0, inUse = [],
     disk = \<lparr>tree = [([''runs''], Dir 448), ([''runs'', ''r1''], Dir 448), ([''runs'', ''r2''], Dir 448),
       ([''runs'', ''r2'', ''done''], File 420 ''yes'' 5)], faults = [], wall = 9\<rparr>\<rparr>"

lemma two_runs_ok: "store_ok two_runs"
  by (auto simp: store_ok_def two_runs_def files_def wf_tree_def is_dir_def uses_def split: if_splits)

definition two_runs_mf :: WarmManifest where
  "two_runs_mf = \<lparr>MfRepo = ''k'', MfLockHash = ''dir .'' @ [CHR 0x0A], MfRepoDir = ''.'', MfGen = ''g-2'', MfCreatedAt = 10\<rparr>"

lemma two_runs_commit: "fst (Commit demo_json (\<lambda>c. c) ''2'' 10 ''r2'' ''k'' two_runs) = Inr two_runs_mf"
  unfolding two_runs_def by code_simp



section \<open>Where the cleanup takes too much\<close>

text \<open>
  Two commits of one repository: run \<open>r2\<close>'s is published between the moment the cleanup of run \<open>r1\<close>'s
  commit reads the manifest and the moment it lists the directory.
\<close>

definition second_commit :: "store \<Rightarrow> store" where
  "second_commit c = snd (commit_publish demo_lib ''2'' 10 ''r2'' ''k'' c)"

definition after_both :: store where
  "after_both = snd (Commit demo_lib second_commit ''1'' 9 ''r1'' ''k'' two_runs)"

text \<open>And a cleanup whose read of the manifest fails.\<close>

definition after_failed_read :: store where
  "after_failed_read =
     (let c = second_commit two_runs
      in cleanGenerations demo_lib (\<lambda>c. c) [''repos'', ''k''] (c\<lparr>disk := (disk c)\<lparr>faults := [True]\<rparr>\<rparr>))"

lemma after_both_eval:
  "after_both = \<lparr>Root = [], MaxBytes = 0, inUse = [],
     disk = \<lparr>tree = [([''repos'', ''k'', ''.last-used''], File 384 [] 9),
       ([''repos'', ''k'', ''manifest.json''], File 384 ''g-2'' 9), ([''repos'', ''k'', ''g-1''], Dir 448),
       ([''repos'', ''k''], Dir 448), ([''repos''], Dir 448),
       ([''runs''], Dir 448), ([''runs'', ''r1''], Dir 448), ([''runs'', ''r2''], Dir 448),
       ([''runs'', ''r2'', ''done''], File 420 ''yes'' 5)], faults = [], wall = 9\<rparr>\<rparr>"
  unfolding after_both_def two_runs_def by code_simp

lemma after_failed_read_eval:
  "after_failed_read = \<lparr>Root = [], MaxBytes = 0, inUse = [],
     disk = \<lparr>tree = [([''repos'', ''k'', ''manifest.json''], File 384 ''g-2'' 9),
       ([''repos'', ''k''], Dir 448), ([''repos''], Dir 448),
       ([''runs''], Dir 448), ([''runs'', ''r1''], Dir 448), ([''runs'', ''r2''], Dir 448),
       ([''runs'', ''r2'', ''done''], File 420 ''yes'' 5)], faults = [], wall = 9\<rparr>\<rparr>"
  unfolding after_failed_read_def two_runs_def by code_simp

text \<open>
  The cleanup can delete the generation the manifest names: when a newer generation is published
  after the cleanup has read the manifest, and when its read of the manifest fails. In both cases the
  manifest still names generation 2, which was complete, and afterwards that generation is gone: the
  next run boots cold.
\<close>

theorem cleanup_deletes_current:
  "node_at (second_commit two_runs) [''repos'', ''k'', ''g-2'', ''done''] \<noteq> None \<and>
   map_of (files after_both) [''repos'', ''k'', manifestFile] = Some (File 384 ''g-2'' 9) \<and>
   map_of (files after_both) [''repos'', ''k'', ''g-2''] = None \<and>
   fst (Boot demo_lib undisturbed ''r3'' ''k'' after_both) = Inr ([''runs'', ''r3''], no_manifest, False) \<and>
   map_of (files after_failed_read) [''repos'', ''k'', manifestFile] = Some (File 384 ''g-2'' 9) \<and>
   map_of (files after_failed_read) [''repos'', ''k'', ''g-2''] = None"
proof (intro conjI)
  show "node_at (second_commit two_runs) [''repos'', ''k'', ''g-2'', ''done''] \<noteq> None"
    unfolding two_runs_def node_at_def by code_simp
  show "fst (Boot demo_lib undisturbed ''r3'' ''k'' after_both) = Inr ([''runs'', ''r3''], no_manifest, False)"
    unfolding after_both_eval by code_simp
qed (simp_all add: after_both_eval after_failed_read_eval files_def manifestFile_def)

end
