(* ===== verification/Manager.thy ===== *)
theory Manager
  imports Pool Lease Docker_Cli Cache_Boot
begin

text \<open>
  \<open>internal/run/manager.go\<close>: the life of a run. The manager composes the registry, the container
  runtime, the warm cache and the proxy pool. Its state is the record \<open>mgr\<close>; the runtime is a record
  of functions on a state of its own (the Go interface \<open>Runtime\<close>), so that the operations hold for
  every implementation. \<open>history\<close> is a ghost: the containers the runtime handed out and the removals
  that were asked of it.

  The clock, the random bytes of an identifier and what \<open>net.Listen\<close> returns are arguments. An
  operation is one run of the code; \<open>others\<close> says what the rest of the daemon does in the windows
  the code leaves open.
\<close>

section \<open>Data\<close>

text \<open>An \<open>io.Reader\<close>: the bytes it gives, and whether it ends in an error.\<close>

type_synonym reader = "string \<times> bool"

record 'r runtime =
  rt_Create :: "CreateSpec \<Rightarrow> 'r \<Rightarrow> (run_error + string) \<times> 'r"
  rt_Exec :: "string \<Rightarrow> string \<Rightarrow> string \<Rightarrow> (string \<times> string) list \<Rightarrow> duration \<Rightarrow> 'r \<Rightarrow>
    ((string \<times> string) list \<times> int \<times> bool \<times> run_error option) \<times> 'r"
  rt_WriteFile :: "string \<Rightarrow> string \<Rightarrow> reader \<Rightarrow> 'r \<Rightarrow> run_error option \<times> 'r"
  rt_ReadFile :: "string \<Rightarrow> string \<Rightarrow> 'r \<Rightarrow> (run_error + string) \<times> 'r"
  rt_Remove :: "string \<Rightarrow> 'r \<Rightarrow> run_error option \<times> 'r"
  rt_Snapshot :: "string \<Rightarrow> string \<Rightarrow> string \<Rightarrow> 'r \<Rightarrow> run_error option \<times> 'r"
  rt_SeedVolume :: "string \<Rightarrow> string \<Rightarrow> string \<Rightarrow> 'r \<Rightarrow> run_error option \<times> 'r"
  rt_ImageIsSnapshot :: "string \<Rightarrow> 'r \<Rightarrow> (run_error + bool) \<times> 'r"
  rt_RemoveImage :: "string \<Rightarrow> 'r \<Rightarrow> run_error option \<times> 'r"

datatype rt_event = Started string CreateSpec | Removed string bool

record 'r mgr =
  rt_state :: 'r
  runs :: registry
  cache :: "store option"       \<comment> \<open>\<open>None\<close>: the nil pointer\<close>
  egress :: "pool option"
  proxy_url :: string
  history :: "rt_event list"

record Limits =
  LimMemoryMB :: int
  LimCPUs :: rat
  LimPids :: int

record WarmRequest =
  ReqRepo :: string
  ReqPath :: string

record CreateRequest =
  ReqImage :: string
  ReqEnv :: "(string \<times> string) list"
  TTLSec :: int
  ReqNetwork :: string
  EgressAllow :: "string list"
  ReqLimits :: "Limits option"
  ReqWarm :: "WarmRequest option"

definition DefaultCPUs :: rat where "DefaultCPUs = 1"

definition tier_name :: "tier \<Rightarrow> string" where
  "tier_name t = (case t of NetworkNone \<Rightarrow> ''none'' | NetworkAllowlist \<Rightarrow> ''allowlist'' | NetworkOpen \<Rightarrow> ''open'')"

text \<open>The host path of a directory of the cache.\<close>

definition host_path :: "path \<Rightarrow> string" where
  "host_path p = ''/'' @ Join ''/'' p"

section \<open>Calls of the runtime\<close>

definition run_container :: "'r runtime \<Rightarrow> CreateSpec \<Rightarrow> 'r mgr \<Rightarrow> (run_error + string) \<times> 'r mgr" where
  "run_container rt spec m =
     (let (r, s) = rt_Create rt spec (rt_state m);
          m = m\<lparr>rt_state := s\<rparr>
      in case r of Inl e \<Rightarrow> (Inl e, m) | Inr c \<Rightarrow> (Inr c, m\<lparr>history := history m @ [Started c spec]\<rparr>))"

definition remove_container :: "'r runtime \<Rightarrow> string \<Rightarrow> 'r mgr \<Rightarrow> run_error option \<times> 'r mgr" where
  "remove_container rt c m =
     (let (e, s) = rt_Remove rt c (rt_state m)
      in (e, m\<lparr>rt_state := s, history := history m @ [Removed c (e = None)]\<rparr>))"

definition with_rt :: "('r \<Rightarrow> 'a \<times> 'r) \<Rightarrow> 'r mgr \<Rightarrow> 'a \<times> 'r mgr" where
  "with_rt f m = (let (x, s) = f (rt_state m) in (x, m\<lparr>rt_state := s\<rparr>))"

section \<open>Volumes and proxies of a run\<close>

definition release_volume :: "lib \<Rightarrow> string \<Rightarrow> 'r mgr \<Rightarrow> 'r mgr" where
  "release_volume l i m = (case cache m of None \<Rightarrow> m | Some c \<Rightarrow> m\<lparr>cache := Some (Release l i c)\<rparr>)"

definition releaseWarm :: "lib \<Rightarrow> Run \<Rightarrow> 'r mgr \<Rightarrow> 'r mgr" where
  "releaseWarm l run m = (if CacheDir run \<noteq> [] then release_volume l (ID run) m else m)"

definition closeEgress :: "string \<Rightarrow> 'r mgr \<Rightarrow> 'r mgr" where
  "closeEgress i m = (case egress m of None \<Rightarrow> m | Some p \<Rightarrow> m\<lparr>egress := Some (Pool_Close i p)\<rparr>)"

section \<open>Create\<close>

text \<open>The checks that come before anything is created.\<close>

definition create_ttl :: "int \<Rightarrow> run_error + duration" where
  "create_ttl n =
     (let ttl = (if n > 0 then seconds n else DefaultTTL)
      in if ttl > MaxTTL then Inl (ErrBadRequest TTLTooLong) else Inr ttl)"

definition check_create :: "lib \<Rightarrow> bool \<Rightarrow> CreateRequest \<Rightarrow> run_error + tier \<times> string list \<times> duration" where
  "check_create l has_egress req =
     (if TrimSpace (ReqImage req) = [] then Inl (ErrBadRequest ImageRequired)
      else (case ParseNetwork (ReqNetwork req) of
        Inl e \<Rightarrow> Inl e
      | Inr network \<Rightarrow>
          (case ValidateAllowlist (unicode_lower l) (EgressAllow req) of
             Inl _ \<Rightarrow> Inl (ErrBadRequest BadEgressAllow)
           | Inr extra \<Rightarrow>
               if extra \<noteq> [] \<and> \<not> has_egress then Inl (ErrBadRequest NoEgressProxy)
               else if extra \<noteq> [] \<and> network \<noteq> NetworkAllowlist
               then Inl (ErrBadRequest (EgressAllowNeedsAllowlist (tier_name network)))
               else (case create_ttl (TTLSec req) of
                      Inl e \<Rightarrow> Inl e
                    | Inr ttl \<Rightarrow> Inr (network, extra, ttl)))))"

definition base_spec :: "string \<Rightarrow> tier \<Rightarrow> CreateRequest \<Rightarrow> CreateSpec" where
  "base_spec url network req =
     (let spec = \<lparr>SpecName = [], SpecImage = ReqImage req, SpecEnv = ReqEnv req, MemoryMB = DefaultMemoryMB,
            CPUs = DefaultCPUs, Pids = DefaultPids, SpecNetwork = network,
            ProxyURL = (if network = NetworkAllowlist then url else []), CacheHostPath = [], SpecCachePath = []\<rparr>
      in case ReqLimits req of
           None \<Rightarrow> spec
         | Some li \<Rightarrow> spec\<lparr>
             MemoryMB := if LimMemoryMB li > 0 then LimMemoryMB li else MemoryMB spec,
             CPUs := if LimCPUs li > 0 then LimCPUs li else CPUs spec,
             Pids := if LimPids li > 0 then LimPids li else Pids spec\<rparr>)"

text \<open>The volume of a run: its state, host directory, mount point, and whether an image seeds it.\<close>

definition boot_volume :: "lib \<Rightarrow> (nat \<Rightarrow> store \<Rightarrow> store) \<Rightarrow> bool \<Rightarrow> string \<Rightarrow> string \<Rightarrow> store \<Rightarrow>
    (run_error + path \<times> WarmManifest \<times> bool) \<times> store" where
  "boot_volume l others fromSnapshot i slug c =
     (if fromSnapshot
      then (case BootEmpty l i c of (Inl e, c) \<Rightarrow> (Inl e, c) | (Inr p, c) \<Rightarrow> (Inr (p, no_manifest, False), c))
      else Boot l others i slug c)"

definition prepare_warm :: "lib \<Rightarrow> 'r runtime \<Rightarrow> (nat \<Rightarrow> store \<Rightarrow> store) \<Rightarrow> string \<Rightarrow> CreateRequest \<Rightarrow> 'r mgr \<Rightarrow>
    (run_error + (WarmState \<times> path \<times> string) option \<times> bool) \<times> 'r mgr" where
  "prepare_warm l rt others i req m =
     (case ReqWarm req of
        None \<Rightarrow> (Inr (None, False), m)
      | Some w \<Rightarrow>
          (case cache m of
             None \<Rightarrow> (Inl (ErrBadRequest NoCacheStore), m)
           | Some c \<Rightarrow>
               (case NormalizeSlug (unicode_lower l) (ReqRepo w) of
                  Inl e \<Rightarrow> (Inl e, m)
                | Inr slug \<Rightarrow>
                    (case ValidateWarmPath (ReqPath w) of
                       Inl e \<Rightarrow> (Inl e, m)
                     | Inr mount \<Rightarrow>
                         (case with_rt (rt_ImageIsSnapshot rt (ReqImage req)) m of
                            (Inl e, m) \<Rightarrow> (Inl e, m)
                          | (Inr fromSnapshot, m) \<Rightarrow>
                              (case boot_volume l others fromSnapshot i slug c of
                                 (Inl e, c) \<Rightarrow> (Inl e, m\<lparr>cache := Some c\<rparr>)
                               | (Inr (p, mf, warmed), c) \<Rightarrow>
                                   (Inr (Some (\<lparr>WarmRepo = slug, Booted = warmed, WarmLockHash = MfLockHash mf,
                                           WarmRepoDir = MfRepoDir mf\<rparr>, p, mount), fromSnapshot),
                                    m\<lparr>cache := Some c\<rparr>)))))))"

text \<open>The private proxy, opened last. (\<open>egress m\<close> is not nil here: \<open>check_create\<close> has seen to it.)\<close>

definition open_private :: "lib \<Rightarrow> string option \<Rightarrow> string \<Rightarrow> string list \<Rightarrow> CreateSpec \<Rightarrow> 'r mgr \<Rightarrow>
    (run_error + CreateSpec) \<times> 'r mgr" where
  "open_private l listen i extra spec m =
     (if extra = [] then (Inr spec, m)
      else case egress m of
        None \<Rightarrow> (Inl (ErrOther ''per-run egress proxy''), m)
      | Some p \<Rightarrow>
          (case OpenFor (unicode_lower l) listen i extra p of
             (p, Inl _) \<Rightarrow> (Inl (ErrOther ''per-run egress proxy''), m\<lparr>egress := Some p\<rparr>)
           | (p, Inr url) \<Rightarrow> (Inr (spec\<lparr>ProxyURL := url\<rparr>), m\<lparr>egress := Some p\<rparr>)))"

text \<open>The container, seeded from the image when it is a snapshot.\<close>

definition start_container :: "'r runtime \<Rightarrow> bool \<Rightarrow> CreateSpec \<Rightarrow> 'r mgr \<Rightarrow> (run_error + string) \<times> 'r mgr" where
  "start_container rt seed spec m =
     (case run_container rt spec m of
        (Inl e, m) \<Rightarrow> (Inl e, m)
      | (Inr c, m) \<Rightarrow>
          if \<not> seed then (Inr c, m)
          else case with_rt (rt_SeedVolume rt c (SpecImage spec) (SpecCachePath spec)) m of
                 (None, m) \<Rightarrow> (Inr c, m)
               | (Some e, m) \<Rightarrow> (Inl e, snd (remove_container rt c m)))"

definition create_spec :: "lib \<Rightarrow> string \<Rightarrow> string \<Rightarrow> tier \<Rightarrow> CreateRequest \<Rightarrow> (WarmState \<times> path \<times> string) option \<Rightarrow> CreateSpec" where
  "create_spec l i url network req warm =
     (let spec = (base_spec url network req)\<lparr>SpecName := ''teploy-sbx-'' @ ToLower (unicode_lower l) i\<rparr>
      in case warm of None \<Rightarrow> spec
         | Some (_, p, mount) \<Rightarrow> spec\<lparr>CacheHostPath := host_path p, SpecCachePath := mount\<rparr>)"

definition Create :: "lib \<Rightarrow> 'r runtime \<Rightarrow> (nat \<Rightarrow> store \<Rightarrow> store) \<Rightarrow> time \<Rightarrow> 8 word list option \<Rightarrow>
    string option \<Rightarrow> CreateRequest \<Rightarrow> 'r mgr \<Rightarrow> (run_error + Run) \<times> 'r mgr" where
  "Create l rt others now rnd listen req m =
     (case check_create l (egress m \<noteq> None) req of
        Inl e \<Rightarrow> (Inl e, m)
      | Inr (network, extra, ttl) \<Rightarrow>
          (case NewULID now rnd of
             Inl _ \<Rightarrow> (Inl (ErrOther ''panic''), m)
           | Inr i \<Rightarrow>
               (case prepare_warm l rt others i req m of
                  (Inl e, m) \<Rightarrow> (Inl e, m)
                | (Inr (warm, seed), m) \<Rightarrow>
                    (let spec = create_spec l i (proxy_url m) network req warm;
                         release = (\<lambda>m. if warm \<noteq> None then release_volume l i m else m)
                     in case open_private l listen i extra spec m of
                          (Inl e, m) \<Rightarrow> (Inl e, release m)
                        | (Inr spec, m) \<Rightarrow>
                            (case start_container rt seed spec m of
                               (Inl e, m) \<Rightarrow> (Inl e, closeEgress i (release m))
                             | (Inr c, m) \<Rightarrow>
                                 (let run = \<lparr>ID = i, RunImage = ReqImage req, RunNetwork = network, ContainerID = c,
                                        Warm = map_option fst warm, CacheDir = CacheHostPath spec,
                                        CachePath = SpecCachePath spec, CreatedAt = now, ExpiresAt = now + ttl,
                                        Lease = None, leaseGen = 0, execs = 0\<rparr>
                                  in (Inr run, m\<lparr>runs := (runs m)(i \<mapsto> run)\<rparr>)))))))"

section \<open>Destroy, reap, snapshots\<close>

text \<open>
  \<open>Destroy\<close> in its three parts: out of the registry, the removal, and back into the registry or the
  release of what the run had. \<open>others\<close> runs while the runtime removes the container.
\<close>

definition untrack :: "string \<Rightarrow> 'r mgr \<Rightarrow> (run_error + Run) \<times> 'r mgr" where
  "untrack i m =
     (case runs m i of
        None \<Rightarrow> (Inl ErrNotFound, m)
      | Some run \<Rightarrow> (Inr run, m\<lparr>runs := (runs m)(i := None)\<rparr>))"

definition finish_destroy :: "lib \<Rightarrow> 'r runtime \<Rightarrow> string \<Rightarrow> Run \<Rightarrow> 'r mgr \<Rightarrow> run_error option \<times> 'r mgr" where
  "finish_destroy l rt i run m =
     (case remove_container rt (ContainerID run) m of
        (Some e, m) \<Rightarrow> (Some e, m\<lparr>runs := (runs m)(i \<mapsto> run)\<rparr>)
      | (None, m) \<Rightarrow> (None, closeEgress i (releaseWarm l run m)))"

definition Destroy :: "lib \<Rightarrow> 'r runtime \<Rightarrow> ('r mgr \<Rightarrow> 'r mgr) \<Rightarrow> string \<Rightarrow> 'r mgr \<Rightarrow> run_error option \<times> 'r mgr" where
  "Destroy l rt others i m =
     (case untrack i m of
        (Inl e, m) \<Rightarrow> (Some e, m)
      | (Inr run, m) \<Rightarrow> finish_destroy l rt i run (others m))"

definition Snapshot :: "lib \<Rightarrow> 'r runtime \<Rightarrow> time \<Rightarrow> 8 word list option \<Rightarrow> string \<Rightarrow> 'r mgr \<Rightarrow> (run_error + string) \<times> 'r mgr" where
  "Snapshot l rt now rnd i m =
     (case runs m i of
        None \<Rightarrow> (Inl ErrNotFound, m)
      | Some current \<Rightarrow>
          (case NewULID now rnd of
             Inl _ \<Rightarrow> (Inl (ErrOther ''panic''), m)
           | Inr u \<Rightarrow>
               (let ref = SnapshotRepo @ '':'' @ ToLower (unicode_lower l) u
                in case with_rt (rt_Snapshot rt (ContainerID current) (CachePath current) ref) m of
                     (Some e, m) \<Rightarrow> (Inl e, m)
                   | (None, m) \<Rightarrow> (Inr ref, m))))"

definition DeleteSnapshot :: "'r runtime \<Rightarrow> string \<Rightarrow> 'r mgr \<Rightarrow> run_error option \<times> 'r mgr" where
  "DeleteSnapshot rt ref m =
     (if \<not> HasPrefix ref (SnapshotRepo @ '':'') then (Some (ErrBadRequest (NotSnapshotRef ref)), m)
      else with_rt (rt_RemoveImage rt ref) m)"

text \<open>\<open>ids\<close> is the order in which Go ranges over the registry.\<close>

definition expired_runs :: "time \<Rightarrow> string list \<Rightarrow> registry \<Rightarrow> Run list" where
  "expired_runs now ids m = filter (\<lambda>run. \<not> now < ExpiresAt run) (List ids m)"

definition reap_one :: "lib \<Rightarrow> 'r runtime \<Rightarrow> Run \<Rightarrow> 'r mgr \<Rightarrow> 'r mgr" where
  "reap_one l rt run m =
     snd (remove_container rt (ContainerID run) (closeEgress (ID run) (releaseWarm l run m)))"

definition Reap :: "lib \<Rightarrow> 'r runtime \<Rightarrow> time \<Rightarrow> string list \<Rightarrow> 'r mgr \<Rightarrow> nat \<times> 'r mgr" where
  "Reap l rt now ids m =
     (let expired = expired_runs now ids (runs m);
          m = m\<lparr>runs := (\<lambda>i. case runs m i of None \<Rightarrow> None
                | Some run \<Rightarrow> if \<not> now < ExpiresAt run then None else Some run)\<rparr>;
          m = fold (reap_one l rt) expired m
      in (length expired,
          case cache m of None \<Rightarrow> m | Some c \<Rightarrow> m\<lparr>cache := Some (snd (Sweep l (\<lambda>c. c) c))\<rparr>))"

definition DestroyAll :: "lib \<Rightarrow> 'r runtime \<Rightarrow> string list \<Rightarrow> 'r mgr \<Rightarrow> 'r mgr" where
  "DestroyAll l rt ids m =
     fold (\<lambda>run m. snd (Destroy l rt (\<lambda>m. m) (ID run) m)) (List ids (runs m)) m"

section \<open>Warm cache\<close>

text \<open>
  \<open>meanwhile\<close> is what others did by the end of the commit. A destroy of this run in the middle of the
  copy is one of these: its release of the volume found the volume in use and did nothing.
\<close>

definition CommitWarm :: "lib \<Rightarrow> (store \<Rightarrow> store) \<Rightarrow> ('r mgr \<Rightarrow> 'r mgr) \<Rightarrow> time \<Rightarrow> 8 word list option \<Rightarrow>
    string \<Rightarrow> string \<Rightarrow> 'r mgr \<Rightarrow> (run_error + WarmState) \<times> 'r mgr" where
  "CommitWarm l others meanwhile now rnd i repo m =
     (case cache m of
        None \<Rightarrow> (Inl (ErrBadRequest NoCacheStore), m)
      | Some c \<Rightarrow>
          (case Get i (runs m) of
             Inl e \<Rightarrow> (Inl e, m)
           | Inr current \<Rightarrow>
               if CacheDir current = [] then (Inl (ErrBadRequest (NoWarmVolume i)), m)
               else case (if repo = [] then Inr (WarmRepo (the (Warm current))) else NormalizeSlug (unicode_lower l) repo) of
                      Inl e \<Rightarrow> (Inl e, m)
                    | Inr slug \<Rightarrow>
                        (case NewULID now rnd of
                           Inl _ \<Rightarrow> (Inl (ErrOther ''panic''), m)
                         | Inr u \<Rightarrow>
                             (let (r, c) = Commit l others u now i slug c;
                                  m = meanwhile (m\<lparr>cache := Some c\<rparr>);
                                  m = (case Get i (runs m) of Inl _ \<Rightarrow> release_volume l i m | Inr _ \<Rightarrow> m)
                              in case r of
                                   Inl e \<Rightarrow> (Inl e, m)
                                 | Inr mf \<Rightarrow>
                                     (Inr \<lparr>WarmRepo = slug, Booted = Booted (the (Warm current)),
                                           WarmLockHash = MfLockHash mf, WarmRepoDir = MfRepoDir mf\<rparr>, m)))))"

definition WarmHash :: "lib \<Rightarrow> string \<Rightarrow> 'r mgr \<Rightarrow> (run_error + WarmState) \<times> 'r mgr" where
  "WarmHash l i m =
     (case cache m of
        None \<Rightarrow> (Inl (ErrBadRequest NoCacheStore), m)
      | Some c \<Rightarrow>
          (case Get i (runs m) of
             Inl e \<Rightarrow> (Inl e, m)
           | Inr current \<Rightarrow>
               if CacheDir current = [] then (Inl (ErrBadRequest (NoWarmVolume i)), m)
               else case Cache_Hash l i c of
                      (Inl e, c) \<Rightarrow> (Inl e, m\<lparr>cache := Some c\<rparr>)
                    | (Inr (hash, repoDir), c) \<Rightarrow>
                        (Inr \<lparr>WarmRepo = WarmRepo (the (Warm current)), Booted = Booted (the (Warm current)),
                              WarmLockHash = hash, WarmRepoDir = repoDir\<rparr>, m\<lparr>cache := Some c\<rparr>)))"

definition Mgr_WarmManifest :: "lib \<Rightarrow> string \<Rightarrow> 'r mgr \<Rightarrow> (run_error + WarmManifest) \<times> 'r mgr" where
  "Mgr_WarmManifest l slug m =
     (case cache m of
        None \<Rightarrow> (Inl (ErrBadRequest NoCacheStore), m)
      | Some c \<Rightarrow>
          (case NormalizeSlug (unicode_lower l) slug of
             Inl e \<Rightarrow> (Inl e, m)
           | Inr normalized \<Rightarrow> (let (r, c) = Manifest l normalized c in (r, m\<lparr>cache := Some c\<rparr>))))"

definition DropWarm :: "lib \<Rightarrow> string \<Rightarrow> 'r mgr \<Rightarrow> run_error option \<times> 'r mgr" where
  "DropWarm l slug m =
     (case cache m of
        None \<Rightarrow> (Some (ErrBadRequest NoCacheStore), m)
      | Some c \<Rightarrow>
          (case NormalizeSlug (unicode_lower l) slug of
             Inl e \<Rightarrow> (Some e, m)
           | Inr normalized \<Rightarrow> (let (r, c) = Drop l normalized c in (r, m\<lparr>cache := Some c\<rparr>))))"

end
