(* ===== verification/Manager_Correct.thy ===== *)
theory Manager_Correct
  imports Manager
begin

text \<open>
  What the manager guarantees: a create is all or nothing, a destroy keeps a run tracked until its
  container is gone, the reaper takes every expired run and no other, no container is forgotten
  without a removal, and the volume of a run destroyed under a commit is released.
\<close>

section \<open>The stages of a create\<close>

text \<open>What was logged since.\<close>

definition since :: "'r mgr \<Rightarrow> 'r mgr \<Rightarrow> rt_event list" where
  "since m m' = drop (length (history m)) (history m')"

lemma remove_container_fields [simp]:
  "runs (snd (remove_container rt c m)) = runs m" "cache (snd (remove_container rt c m)) = cache m"
  "egress (snd (remove_container rt c m)) = egress m" "proxy_url (snd (remove_container rt c m)) = proxy_url m"
  "history (snd (remove_container rt c m)) = history m @ [Removed c (fst (remove_container rt c m) = None)]"
  by (simp_all add: remove_container_def split: prod.splits)

lemma with_rt_fields [simp]:
  "runs (snd (with_rt f m)) = runs m" "cache (snd (with_rt f m)) = cache m"
  "egress (snd (with_rt f m)) = egress m" "proxy_url (snd (with_rt f m)) = proxy_url m"
  "history (snd (with_rt f m)) = history m"
  by (simp_all add: with_rt_def split: prod.splits)

lemma release_volume_fields [simp]:
  "runs (release_volume l i m) = runs m" "egress (release_volume l i m) = egress m"
  "history (release_volume l i m) = history m" "rt_state (release_volume l i m) = rt_state m"
  "cache (release_volume l i m) = map_option (Release l i) (cache m)"
  by (simp_all add: release_volume_def split: option.splits)

lemma closeEgress_fields [simp]:
  "runs (closeEgress i m) = runs m" "cache (closeEgress i m) = cache m" "history (closeEgress i m) = history m"
  "rt_state (closeEgress i m) = rt_state m" "egress (closeEgress i m) = map_option (Pool_Close i) (egress m)"
  by (simp_all add: closeEgress_def split: option.splits)

lemma releaseWarm_fields [simp]:
  "runs (releaseWarm l run m) = runs m" "egress (releaseWarm l run m) = egress m"
  "history (releaseWarm l run m) = history m" "rt_state (releaseWarm l run m) = rt_state m"
  by (simp_all add: releaseWarm_def)

lemma with_rtE:
  assumes "with_rt f m = (x, m')"
  shows "runs m' = runs m" "cache m' = cache m" "egress m' = egress m" "history m' = history m"
    "proxy_url m' = proxy_url m"
  using with_rt_fields [of f m] assms by simp_all

lemma remove_containerE:
  assumes "remove_container rt c m = (e, m')"
  shows "runs m' = runs m" "cache m' = cache m" "egress m' = egress m"
    "history m' = history m @ [Removed c (e = None)]"
  using remove_container_fields [of rt c m] assms by simp_all

text \<open>Whatever stage a create is in, the volume of its run is idle, and absent unless it was booted.\<close>

definition volume_idle :: "lib \<Rightarrow> string \<Rightarrow> 'r mgr \<Rightarrow> bool" where
  "volume_idle l i m \<longleftrightarrow> (\<forall>c. cache m = Some c \<longrightarrow> idle_volume l i c)"

definition volume_absent :: "lib \<Rightarrow> string \<Rightarrow> 'r mgr \<Rightarrow> bool" where
  "volume_absent l i m \<longleftrightarrow> (\<forall>c. cache m = Some c \<longrightarrow> no_volume l i c)"

lemma release_volume_absent: "volume_idle l i m \<Longrightarrow> volume_absent l i (release_volume l i m)"
  by (auto simp: volume_idle_def volume_absent_def intro: warm_boot.release_gone)

lemma boot_volume_ok:
  assumes "boot_volume l undisturbed b i slug c = (r, c')" and "idle_volume l i c" and "no_volume l i c"
  shows "idle_volume l i c' \<and> (\<forall>e. r = Inl e \<longrightarrow> no_volume l i c')"
proof (cases b)
  case True
  obtain r' c1 where e: "BootEmpty l i c = (r', c1)" by fastforce
  have "c' = c1" "(\<exists>e. r = Inl e) \<longleftrightarrow> (\<exists>e. r' = Inl e)"
    using assms(1) True e by (auto simp: boot_volume_def split: sum.splits)
  then show ?thesis
    using empty_boot.alloc_idle [OF assms(2,3) e] empty_boot.alloc_failed [OF assms(2,3), of _ c1] e by auto
next
  case False
  then have e: "Boot l undisturbed i slug c = (r, c')" using assms(1) by (simp add: boot_volume_def)
  show ?thesis
    using warm_boot.alloc_idle [OF assms(2,3) e] warm_boot.alloc_failed [OF assms(2,3), of slug _ c'] e by auto
qed

lemma prepare_warm_ok:
  assumes "prepare_warm l rt others i req m = (r, m')"
  shows "runs m' = runs m \<and> egress m' = egress m \<and> history m' = history m \<and> proxy_url m' = proxy_url m \<and>
    (\<forall>warm seed. r = Inr (warm, seed) \<longrightarrow> (warm = None \<longleftrightarrow> ReqWarm req = None) \<and> (warm = None \<longrightarrow> m' = m \<and> \<not> seed))"
  using assms
  by (auto simp: prepare_warm_def split: option.splits sum.splits prod.splits dest: with_rtE)

lemma prepare_warm_volume:
  assumes "prepare_warm l rt undisturbed i req m = (r, m')" and "volume_idle l i m" and "volume_absent l i m"
  shows "volume_idle l i m' \<and> ((\<exists>e. r = Inl e) \<or> (\<exists>seed. r = Inr (None, seed)) \<longrightarrow> volume_absent l i m')"
  using assms boot_volume_ok [of l _ i]
  by (fastforce simp: prepare_warm_def volume_idle_def volume_absent_def dest: with_rtE
      split: option.splits sum.splits prod.splits)

lemma open_private_ok:
  assumes "open_private l listen i extra spec m = (r, m')"
  shows "runs m' = runs m \<and> cache m' = cache m \<and> history m' = history m \<and>
    (\<forall>e. r = Inl e \<longrightarrow> m' = m) \<and>
    (\<forall>spec'. r = Inr spec' \<longrightarrow> (\<exists>url. spec' = spec\<lparr>ProxyURL := url\<rparr> \<and> (extra = [] \<longrightarrow> url = ProxyURL spec)) \<and>
      (extra = [] \<longrightarrow> m' = m) \<and>
      (\<forall>p'. egress m' = Some p' \<longrightarrow> (\<exists>p. egress m = Some p \<and>
         (\<forall>j. j \<noteq> i \<longrightarrow> perRun p' j = perRun p j \<and> perRunPx p' j = perRunPx p j))) \<and>
      (egress m' = None \<longleftrightarrow> egress m = None))"
proof (cases "extra = [] \<or> egress m = None")
  case True
  then show ?thesis using assms by (cases spec) (auto simp: open_private_def split: if_splits)
next
  case False
  then obtain p where p: "egress m = Some p" and e: "extra \<noteq> []" by auto
  obtain p' x where o: "OpenFor (unicode_lower l) listen i extra p = (p', x)" by fastforce
  show ?thesis
  proof (cases x)
    case (Inl y)
    then have "p' = p" using OpenFor_failed o by blast
    then show ?thesis using assms p e o Inl by (auto simp: open_private_def)
  next
    case (Inr url)
    note pr = OpenFor_private [OF o [unfolded Inr] e]
    show ?thesis using assms p e o Inr pr by (auto simp: open_private_def)
  qed
qed

lemma start_container_ok:
  assumes "start_container rt seed spec m = (r, m')"
  shows "runs m' = runs m \<and> cache m' = cache m \<and> egress m' = egress m \<and>
    (\<forall>e. r = Inl e \<longrightarrow> history m' = history m \<or> (\<exists>c ok. history m' = history m @ [Started c spec, Removed c ok])) \<and>
    (\<forall>c. r = Inr c \<longrightarrow> history m' = history m @ [Started c spec])"
  using assms
  by (auto simp: start_container_def run_container_def Let_def split: prod.splits sum.splits if_splits option.splits
      dest: with_rtE) 

section \<open>Create\<close>

text \<open>The way of a create, stage by stage.\<close>

lemma CreateE:
  assumes "Create l rt others now rnd listen req m = (r, m')"
  obtains (refused) e where "r = Inl e" "m' = m"
  | (no_volume) e network extra ttl i where
      "check_create l (egress m \<noteq> None) req = Inr (network, extra, ttl)" "NewULID now rnd = Inr i"
      "prepare_warm l rt others i req m = (Inl e, m')" "r = Inl e"
  | (no_proxy) e network extra ttl i warm seed m1 m2 where
      "check_create l (egress m \<noteq> None) req = Inr (network, extra, ttl)" "NewULID now rnd = Inr i"
      "prepare_warm l rt others i req m = (Inr (warm, seed), m1)"
      "open_private l listen i extra (create_spec l i (proxy_url m) network req warm) m1 = (Inl e, m2)"
      "r = Inl e" "m' = (if warm \<noteq> None then release_volume l i m2 else m2)"
  | (no_container) e network extra ttl i warm seed spec m1 m2 m3 where
      "check_create l (egress m \<noteq> None) req = Inr (network, extra, ttl)" "NewULID now rnd = Inr i"
      "prepare_warm l rt others i req m = (Inr (warm, seed), m1)"
      "open_private l listen i extra (create_spec l i (proxy_url m) network req warm) m1 = (Inr spec, m2)"
      "start_container rt seed spec m2 = (Inl e, m3)"
      "r = Inl e" "m' = closeEgress i (if warm \<noteq> None then release_volume l i m3 else m3)"
  | (created) network extra ttl i warm seed spec m1 m2 m3 c run where
      "check_create l (egress m \<noteq> None) req = Inr (network, extra, ttl)" "NewULID now rnd = Inr i"
      "prepare_warm l rt others i req m = (Inr (warm, seed), m1)"
      "open_private l listen i extra (create_spec l i (proxy_url m) network req warm) m1 = (Inr spec, m2)"
      "start_container rt seed spec m2 = (Inr c, m3)"
      "run = \<lparr>ID = i, RunImage = ReqImage req, RunNetwork = network, ContainerID = c,
         Warm = map_option fst warm, CacheDir = CacheHostPath spec, CachePath = SpecCachePath spec,
         CreatedAt = now, ExpiresAt = now + ttl, Lease = None, leaseGen = 0, execs = 0\<rparr>"
      "r = Inr run" "m' = m3\<lparr>runs := (runs m3)(i \<mapsto> run)\<rparr>"
proof (cases "check_create l (egress m \<noteq> None) req")
  case (Inl e)
  then show ?thesis using assms refused by (auto simp: Create_def)
next
  case chk: (Inr x)
  obtain network extra ttl where x: "x = (network, extra, ttl)" by (cases x)
  show ?thesis
  proof (cases "NewULID now rnd")
    case (Inl e)
    then show ?thesis using assms chk x refused by (auto simp: Create_def)
  next
    case u: (Inr i)
    obtain w m1 where pw: "prepare_warm l rt others i req m = (w, m1)" by fastforce
    show ?thesis
    proof (cases w)
      case (Inl e)
      then show ?thesis using assms chk x u pw no_volume [of network extra ttl i e] by (simp add: Create_def)
    next
      case w: (Inr ws)
      obtain warm seed where ws: "ws = (warm, seed)" by (cases ws)
      have url: "proxy_url m1 = proxy_url m" using prepare_warm_ok [OF pw] by simp
      obtain q m2 where op: "open_private l listen i extra (create_spec l i (proxy_url m) network req warm) m1 = (q, m2)"
        by fastforce
      show ?thesis
      proof (cases q)
        case (Inl e)
        then show ?thesis
          using assms chk x u pw w ws op url no_proxy [of network extra ttl i warm seed m1 e m2]
          by (simp add: Create_def Let_def)
      next
        case q: (Inr spec)
        obtain z m3 where st: "start_container rt seed spec m2 = (z, m3)" by fastforce
        show ?thesis
        proof (cases z)
          case (Inl e)
          then show ?thesis
            using assms chk x u pw w ws op q st url no_container [of network extra ttl i warm seed m1 spec m2 e m3]
            by (simp add: Create_def Let_def)
        next
          case (Inr c)
          then show ?thesis
            using assms chk x u pw w ws op q st url created [of network extra ttl i warm seed m1 spec m2 c m3]
            by (simp add: Create_def Let_def)
        qed
      qed
    qed
  qed
qed

text \<open>What a pool that had nothing of run \<open>i\<close> looks like after run \<open>i\<close>'s proxy was opened and closed.\<close>

definition same_proxies :: "pool option \<Rightarrow> pool option \<Rightarrow> bool" where
  "same_proxies a b \<longleftrightarrow> map_option perRun a = map_option perRun b \<and> map_option perRunPx a = map_option perRunPx b"

lemma closed_again:
  assumes "open_private l listen i extra spec m = (r, m')"
    and "\<And>p. egress m = Some p \<Longrightarrow> perRun p i = None \<and> perRunPx p i = None"
  shows "same_proxies (map_option (Pool_Close i) (egress m')) (egress m)"
proof (cases r)
  case (Inl e)
  then have "m' = m" using open_private_ok [OF assms(1)] by blast
  then show ?thesis using assms(2) by (cases "egress m") (auto simp: same_proxies_def fun_eq_iff)
next
  case (Inr spec')
  then show ?thesis using open_private_ok [OF assms(1)] assms(2)
    by (cases "egress m"; cases "egress m'") (auto simp: same_proxies_def fun_eq_iff)
qed


text \<open>A runtime that answers as it is told; its state is not used.\<close>

definition demo_rt :: "(run_error + string) \<Rightarrow> run_error option \<Rightarrow> unit runtime" where
  "demo_rt create remove = \<lparr>rt_Create = (\<lambda>spec s. (create, s)),
     rt_Exec = (\<lambda>c cmd cwd env t s. (([], 0, False, None), s)), rt_WriteFile = (\<lambda>c p d s. (None, s)),
     rt_ReadFile = (\<lambda>c p s. (Inr [], s)), rt_Remove = (\<lambda>c s. (remove, s)),
     rt_Snapshot = (\<lambda>c v r s. (None, s)), rt_SeedVolume = (\<lambda>c r v s. (None, s)),
     rt_ImageIsSnapshot = (\<lambda>r s. (Inr False, s)), rt_RemoveImage = (\<lambda>r s. (None, s))\<rparr>"

definition demo_req :: CreateRequest where
  "demo_req = \<lparr>ReqImage = ''alpine'', ReqEnv = [], TTLSec = 60, ReqNetwork = ''none'', EgressAllow = [],
     ReqLimits = None, ReqWarm = Some \<lparr>ReqRepo = ''o/n'', ReqPath = []\<rparr>\<rparr>"

definition demo_mgr :: "registry \<Rightarrow> unit mgr" where
  "demo_mgr rs = \<lparr>rt_state = (), runs = rs, cache = Some two_runs, egress = None, proxy_url = [], history = []\<rparr>"

definition demo_id :: string where
  "demo_id = replicate 26 (CHR ''0'')"

lemma demo_id_ulid: "NewULID 0 (Some (replicate 10 0)) = Inr demo_id"
  unfolding demo_id_def by code_simp

lemma demo_fresh: "volume_idle demo_json demo_id (demo_mgr rs) \<and> volume_absent demo_json demo_id (demo_mgr rs)"
proof -
  have rd: "runDir demo_json two_runs demo_id = [''runs'', demo_id]"
    unfolding two_runs_def demo_id_def by code_simp
  have "demo_id \<noteq> ''r1''" "demo_id \<noteq> ''r2''" unfolding demo_id_def by code_simp+
  then have "absent [''runs'', demo_id] two_runs"
    by (auto simp: absent_def node_at_def two_runs_def files_def)
  moreover have "uses p two_runs = 0" for p by (simp add: uses_def two_runs_def)
  ultimately show ?thesis using two_runs_ok
    by (simp add: volume_idle_def volume_absent_def idle_volume_def no_volume_def demo_mgr_def rd)
qed




text \<open>
  C38. The bound on a run's life is checked on a product that wraps: a \<open>ttlSec\<close> of up to a day is
  taken exactly and a longer one refused, up to 292 years; beyond, \<open>create_ttl\<close> accepts requests again, with
  a deadline in the past (9223372037 seconds) or a fraction of a second away (18446744074 seconds).
\<close>

theorem create_ttl_wraps:
  "(\<forall>n \<in> {1..86400}. create_ttl n = Inr (n * second)) \<and>
   (\<forall>n \<in> {86401..9223372036}. create_ttl n = Inl (ErrBadRequest TTLTooLong)) \<and>
   create_ttl 9223372037 = Inr (- 9223372036709551616) \<and> create_ttl 18446744074 = Inr 290448384"
proof (intro conjI ballI)
  fix n :: int
  assume "n \<in> {1..86400}"
  then show "create_ttl n = Inr (n * second)" by (simp add: create_ttl_def seconds_exact MaxTTL_def)
next
  fix n :: int
  assume "n \<in> {86401..9223372036}"
  then show "create_ttl n = Inl (ErrBadRequest TTLTooLong)" by (simp add: create_ttl_def seconds_exact MaxTTL_def)
qed (simp_all add: create_ttl_def seconds_def i64_def MaxTTL_def)

theorem create_ttl_wraps_witness:
  "create_ttl 60 = Inr 60000000000 \<and> create_ttl 90000 = Inl (ErrBadRequest TTLTooLong)"
  using create_ttl_wraps by auto

section \<open>Destroy and reap\<close>


definition warm_run :: Run where
  "warm_run = \<lparr>ID = demo_id, RunImage = ''alpine'', RunNetwork = NetworkNone, ContainerID = ''c1'', Warm = None,
     CacheDir = ''/runs'', CachePath = ''/work'', CreatedAt = 0, ExpiresAt = 60, Lease = None, leaseGen = 0, execs = 0\<rparr>"


lemma reap_one_fields [simp]:
  "runs (reap_one l rt run m) = runs m"
  "egress (reap_one l rt run m) = map_option (Pool_Close (ID run)) (egress m)"
  by (simp_all add: reap_one_def)

lemma reap_one_history: "\<exists>ok. history (reap_one l rt run m) = history m @ [Removed (ContainerID run) ok]"
  by (simp add: reap_one_def)

lemma fold_reap:
  "runs (fold (reap_one l rt) rs m) = runs m \<and>
   egress (fold (reap_one l rt) rs m) = map_option (fold Pool_Close (map ID rs)) (egress m) \<and>
   (\<exists>oks. length oks = length rs \<and>
      history (fold (reap_one l rt) rs m) = history m @ map2 (\<lambda>run ok. Removed (ContainerID run) ok) rs oks)"
proof (induction rs arbitrary: m)
  case (Cons run rs)
  obtain ok where ok: "history (reap_one l rt run m) = history m @ [Removed (ContainerID run) ok]"
    using reap_one_history by blast
  obtain oks where oks: "length oks = length rs"
      "history (fold (reap_one l rt) rs (reap_one l rt run m)) =
       history (reap_one l rt run m) @ map2 (\<lambda>run ok. Removed (ContainerID run) ok) rs oks"
    using Cons [of "reap_one l rt run m"] by blast
  have "\<exists>oks. length oks = length (run # rs) \<and> history (fold (reap_one l rt) (run # rs) m) =
      history m @ map2 (\<lambda>run ok. Removed (ContainerID run) ok) (run # rs) oks"
    by (rule exI [of _ "ok # oks"]) (use ok oks in simp)
  then show ?case using Cons [of "reap_one l rt run m"] by (cases "egress m") auto
qed (simp add: option.map_id0 [unfolded id_def] id_def)

definition expired :: "time \<Rightarrow> registry \<Rightarrow> string \<Rightarrow> bool" where
  "expired now rs i \<longleftrightarrow> (\<exists>run. rs i = Some run \<and> \<not> now < ExpiresAt run)"

lemma expired_runs_ids:
  assumes "set ids = dom rs" and "\<And>i run. rs i = Some run \<Longrightarrow> ID run = i"
  shows "map ID (expired_runs now ids rs) = filter (expired now rs) ids"
  using assms(1)
proof -
  have "map ID (filter (\<lambda>run. \<not> now < ExpiresAt run) (map (\<lambda>i. the (rs i)) is)) = filter (expired now rs) is"
    if "set is \<subseteq> dom rs" for "is"
    using that by (induction "is") (auto simp: expired_def assms(2))
  then show ?thesis using assms(1) by (simp add: expired_runs_def List_def)
qed

lemma Reap_fields:
  assumes "Reap l rt now ids m = (n, m')" and "rs = expired_runs now ids (runs m)"
  shows "n = length rs \<and> runs m' = (\<lambda>i. if expired now (runs m) i then None else runs m i) \<and>
    egress m' = map_option (fold Pool_Close (map ID rs)) (egress m) \<and>
    (\<exists>oks. length oks = n \<and> history m' = history m @ map2 (\<lambda>run ok. Removed (ContainerID run) ok) rs oks)"
proof -
  define m1 where "m1 = m\<lparr>runs := (\<lambda>i. case runs m i of None \<Rightarrow> None
      | Some run \<Rightarrow> if \<not> now < ExpiresAt run then None else Some run)\<rparr>"
  have r: "n = length rs" and m': "m' = (case cache (fold (reap_one l rt) rs m1) of
        None \<Rightarrow> fold (reap_one l rt) rs m1
      | Some c \<Rightarrow> (fold (reap_one l rt) rs m1)\<lparr>cache := Some (snd (Sweep l (\<lambda>c. c) c))\<rparr>)"
    using assms unfolding m1_def by (auto simp: Reap_def Let_def)
  have "runs m1 = (\<lambda>i. if expired now (runs m) i then None else runs m i)"
    by (auto simp: m1_def expired_def fun_eq_iff split: option.splits)
  moreover have "egress m1 = egress m" "history m1 = history m" by (simp_all add: m1_def)
  moreover have "runs m' = runs (fold (reap_one l rt) rs m1)" "egress m' = egress (fold (reap_one l rt) rs m1)"
      "history m' = history (fold (reap_one l rt) rs m1)"
    using m' by (simp_all split: option.splits)
  ultimately show ?thesis using fold_reap [of l rt rs m1] r by auto
qed

text \<open>
  C25. The reaper takes every run whose deadline has come and no other: the runs that are left are
  exactly those with a deadline in the future, unchanged; it asks for the removal of each expired
  run's container exactly once; the private proxies it closes are exactly those of expired runs.
\<close>

theorem Reap_takes_expired:
  assumes "Reap l rt now ids m = (n, m')" and "distinct ids" and "set ids = dom (runs m)"
    and "\<And>i run. runs m i = Some run \<Longrightarrow> ID run = i"
  shows "n = card {i. expired now (runs m) i} \<and>
    runs m' = (\<lambda>i. if expired now (runs m) i then None else runs m i) \<and>
    (\<exists>oks. length oks = n \<and> since m m' =
       map2 (\<lambda>i ok. Removed (ContainerID (the (runs m i))) ok) (filter (expired now (runs m)) ids) oks) \<and>
    (\<forall>p. egress m = Some p \<longrightarrow> (\<exists>p'. egress m' = Some p' \<and>
       allowed_of p' = (\<lambda>i. if expired now (runs m) i then None else allowed_of p i)))"
proof -
  define rs where "rs = expired_runs now ids (runs m)"
  note rp = Reap_fields [OF assms(1) rs_def]
  have ids: "map ID rs = filter (expired now (runs m)) ids"
    unfolding rs_def by (rule expired_runs_ids [OF assms(3,4)])
  have sub: "expired now (runs m) i \<Longrightarrow> i \<in> set ids" for i by (auto simp: expired_def assms(3))
  then have set: "{i. expired now (runs m) i} = set (map ID rs)" using ids by auto
  have "distinct (map ID rs)" using ids assms(2) by simp
  then have n: "n = card {i. expired now (runs m) i}" unfolding set using rp by (simp add: distinct_card del: set_map)
  have rs: "rs = map (\<lambda>i. the (runs m i)) (map ID rs)"
  proof -
    have "the (runs m (ID run)) = run" if "run \<in> set rs" for run
      using that assms(3,4) by (auto simp: rs_def expired_runs_def List_def)
    then show ?thesis by (simp add: map_idI)
  qed
  have "map2 (\<lambda>run ok. Removed (ContainerID run) ok) rs oks =
      map2 (\<lambda>i ok. Removed (ContainerID (the (runs m i))) ok) (filter (expired now (runs m)) ids) oks" for oks
    unfolding ids [symmetric] by (subst rs) (simp add: zip_map1 case_prod_unfold comp_def)
  moreover have "allowed_of (fold Pool_Close (map ID rs) p) = (\<lambda>i. if expired now (runs m) i then None else allowed_of p i)" for p
    using pool_egress.fold_close_allowed [of "map ID rs" p] set by (metis mem_Collect_eq)
  ultimately show ?thesis using rp n by (auto simp: since_def)
qed

theorem Reap_takes_expired_witness:
  "runs (snd (Reap demo_json (demo_rt (Inr []) None) 60 [demo_id] (demo_mgr [demo_id \<mapsto> warm_run]))) demo_id = None"
proof -
  let ?m = "demo_mgr [demo_id \<mapsto> warm_run]"
  obtain n m' where r: "Reap demo_json (demo_rt (Inr []) None) 60 [demo_id] ?m = (n, m')" by fastforce
  have "set [demo_id] = dom (runs ?m)" by (simp add: demo_mgr_def)
  moreover have "ID run = i" if "runs ?m i = Some run" for i run
    using that by (auto simp: demo_mgr_def warm_run_def split: if_splits)
  moreover have "expired 60 (runs ?m) demo_id" by (simp add: expired_def demo_mgr_def warm_run_def)
  ultimately show ?thesis using Reap_takes_expired [OF r] r by simp
qed

text \<open>
  The reaper forgets a container it could not remove: when the runtime fails to remove the
  container of an expired run, the run is out of the registry all the same, its proxy and volume are
  given up, and the one removal that was asked for failed. (After a failed destroy the run stays
  tracked and is retried.)
\<close>

theorem Reap_forgets_on_failure:
  assumes "runs m i = Some run" and "\<not> now < ExpiresAt run"
    and "\<And>s. fst (rt_Remove rt (ContainerID run) s) \<noteq> None" and "Reap l rt now ids m = (n, m')"
  shows "runs m' i = None \<and> Removed (ContainerID run) True \<notin> set (since m m')"
proof -
  have f: "fst (remove_container rt (ContainerID run) s) \<noteq> None" for s
    using assms(3) by (simp add: remove_container_def split: prod.splits) (metis fst_conv)
  have none: "\<exists>ext. history (fold (reap_one l rt) rs m) = history m @ ext \<and> Removed (ContainerID run) True \<notin> set ext"
    for rs m
  proof (induction rs arbitrary: m)
    case (Cons r rs)
    obtain ok where ok: "history (reap_one l rt r m) = history m @ [Removed (ContainerID r) ok]"
        "ContainerID r = ContainerID run \<longrightarrow> \<not> ok"
      using f by (auto simp: reap_one_def)
    obtain ext where "history (fold (reap_one l rt) rs (reap_one l rt r m)) = history (reap_one l rt r m) @ ext"
        "Removed (ContainerID run) True \<notin> set ext" using Cons by blast
    then show ?case using ok by (intro exI [of _ "Removed (ContainerID r) ok # ext"]) auto
  qed simp
  define m1 where "m1 = m\<lparr>runs := (\<lambda>i. case runs m i of None \<Rightarrow> None
      | Some run \<Rightarrow> if \<not> now < ExpiresAt run then None else Some run)\<rparr>"
  have h: "history m' = history (fold (reap_one l rt) (expired_runs now ids (runs m)) m1)"
    using assms(4) unfolding m1_def by (auto simp: Reap_def Let_def split: option.splits)
  have m1: "history m1 = history m" by (simp add: m1_def)
  obtain ext where "history m' = history m @ ext" "Removed (ContainerID run) True \<notin> set ext"
    using none [of "expired_runs now ids (runs m)" m1] h m1 by auto
  moreover have "expired now (runs m) i" using assms(1,2) by (simp add: expired_def)
  ultimately show ?thesis using Reap_fields [OF assms(4) refl] by (simp add: since_def)
qed

theorem Reap_forgets_on_failure_witness:
  "runs (snd (Reap demo_json (demo_rt (Inr []) (Some ErrNotFound)) 60 [demo_id] (demo_mgr [demo_id \<mapsto> warm_run]))) demo_id = None"
proof -
  let ?m = "demo_mgr [demo_id \<mapsto> warm_run]"
  obtain n m' where r: "Reap demo_json (demo_rt (Inr []) (Some ErrNotFound)) 60 [demo_id] ?m = (n, m')" by fastforce
  have "runs ?m demo_id = Some warm_run" by (simp add: demo_mgr_def)
  moreover have "\<not> 60 < ExpiresAt warm_run" by (simp add: warm_run_def)
  moreover have "fst (rt_Remove (demo_rt (Inr []) (Some ErrNotFound)) (ContainerID warm_run) s) \<noteq> None" for s
    by (simp add: demo_rt_def)
  ultimately show ?thesis using Reap_forgets_on_failure [OF _ _ _ r] r by simp
qed

section \<open>A run destroyed under a commit\<close>

text \<open>
  The volume of a run that is destroyed while it is being committed is released by the commit:
  whenever the run is no longer registered when \<open>CommitWarm\<close> returns, whatever the outcome, its
  volume is gone.
\<close>

theorem CommitWarm_releases:
  assumes "CommitWarm l (\<lambda>c. c) meanwhile now rnd i repo m = (r, m')"
    and "runs m i \<noteq> None" and "runs m' i = None"
    and "volume_idle l i m" and "\<And>m. volume_idle l i m \<Longrightarrow> volume_idle l i (meanwhile m)"
  shows "volume_absent l i m'"
proof -
  obtain run c where run: "runs m i = Some run" and c: "cache m = Some c"
    using assms(1-3) by (cases "cache m") (auto simp: CommitWarm_def)
  have get: "Get i (runs m) = Inr run" using run by simp
  have ne: "m' \<noteq> m" using assms(2,3) by auto
  then have cd: "CacheDir run \<noteq> []" using assms(1) c get by (auto simp: CommitWarm_def)
  obtain slug where slug: "(if repo = [] then Inr (WarmRepo (the (Warm run))) else NormalizeSlug (unicode_lower l) repo) =
      (Inr slug :: run_error + string)"
    using assms(1) ne c get cd by (auto simp: CommitWarm_def split: sum.splits if_splits)
  obtain u where u: "NewULID now rnd = Inr u"
    using assms(1) ne c get cd slug by (auto simp: CommitWarm_def split: sum.splits)
  obtain x c' where cm: "Commit l (\<lambda>c. c) u now i slug c = (x, c')" by fastforce
  define m2 where "m2 = meanwhile (m\<lparr>cache := Some c'\<rparr>)"
  have m': "m' = (case Get i (runs m2) of Inl _ \<Rightarrow> release_volume l i m2 | Inr _ \<Rightarrow> m2)"
    using assms(1) c get cd slug u cm unfolding m2_def
    by (auto simp: CommitWarm_def Let_def split: sum.splits)
  have i: "idle_volume l i c" using assms(4) c by (simp add: volume_idle_def)
  have "keeps c c'" using Commit_keeps [OF cm] i by (simp add: idle_volume_def)
  then have "idle_volume l i c'" using i by (simp add: idle_volume_def keeps_def runDir_def)
  then have idle: "volume_idle l i m2" unfolding m2_def by (intro assms(5)) (simp add: volume_idle_def)
  have "runs m' = runs m2" using m' by (simp split: sum.splits)
  then have "runs m2 i = None" using assms(3) by simp
  then have "m' = release_volume l i m2" using m' by (simp add: Get_def)
  then show ?thesis using release_volume_absent [OF idle] by simp
qed

text \<open>A destroy while the volume is being copied: the run is untracked and the volume stays.\<close>

definition destroyed_midway :: "unit mgr \<Rightarrow> unit mgr" where
  "destroyed_midway m = m\<lparr>runs := (runs m)(demo_id := None)\<rparr>"

theorem CommitWarm_releases_witness:
  "volume_absent demo_json demo_id (snd (CommitWarm demo_json (\<lambda>c. c) destroyed_midway 0 (Some (replicate 10 0)) demo_id []
     (demo_mgr [demo_id \<mapsto> warm_run\<lparr>Warm := Some \<lparr>WarmRepo = ''o/n'', Booted = False, WarmLockHash = [], WarmRepoDir = []\<rparr>\<rparr>])))"
proof -
  let ?run = "warm_run\<lparr>Warm := Some \<lparr>WarmRepo = ''o/n'', Booted = False, WarmLockHash = [], WarmRepoDir = []\<rparr>\<rparr>"
  let ?m = "demo_mgr [demo_id \<mapsto> ?run]"
  obtain r m' where c: "CommitWarm demo_json (\<lambda>c. c) destroyed_midway 0 (Some (replicate 10 0)) demo_id [] ?m = (r, m')"
    by fastforce
  have r: "runs ?m demo_id = Some ?run" by (simp add: demo_mgr_def)
  have "runs m' demo_id = None"
    using c r demo_id_ulid
    by (auto simp: CommitWarm_def destroyed_midway_def demo_mgr_def warm_run_def Let_def split: sum.splits prod.splits)
  then show ?thesis
    using CommitWarm_releases [OF c] r demo_fresh c
    by (auto simp: destroyed_midway_def volume_idle_def)
qed

end
