(* ===== verification/Manager_Steps.thy ===== *)
theory Manager_Steps
  imports Manager_Correct
begin

text \<open>
  The daemon at work: requests and reaper passes in any order, as a step relation on the manager's
  state. A destroy is two steps, since other requests run while docker removes the container; the runs
  that are between the two are the second half of the state. The invariant is that the manager never
  loses sight of a container: it is tracked, on its way out, or its removal was asked for.
\<close>

section \<open>Steps\<close>

type_synonym 'r daemon_state = "'r mgr \<times> (string \<times> Run) list"

inductive mstep :: "lib \<Rightarrow> 'r runtime \<Rightarrow> 'r daemon_state \<Rightarrow> 'r daemon_state \<Rightarrow> bool" for l rt where
  create: "Create l rt others now rnd listen req m = (r, m') \<Longrightarrow>
     (\<And>i. NewULID now rnd = Inr i \<Longrightarrow> runs m i = None \<and> i \<notin> fst ` set d) \<Longrightarrow> mstep l rt (m, d) (m', d)"
| leave: "untrack i m = (Inr run, m') \<Longrightarrow> mstep l rt (m, d) (m', (i, run) # d)"
| left: "(i, run) \<in> set d \<Longrightarrow> finish_destroy l rt i run m = (e, m') \<Longrightarrow>
     mstep l rt (m, d) (m', remove1 (i, run) d)"
| reap: "Reap l rt now ids m = (n, m') \<Longrightarrow> set ids = dom (runs m) \<Longrightarrow> mstep l rt (m, d) (m', d)"
| snapshot: "Snapshot l rt now rnd i m = (r, m') \<Longrightarrow> mstep l rt (m, d) (m', d)"
| delete_snapshot: "DeleteSnapshot rt ref m = (e, m') \<Longrightarrow> mstep l rt (m, d) (m', d)"
| commit_warm: "CommitWarm l others (\<lambda>m. m) now rnd i repo m = (r', m') \<Longrightarrow> mstep l rt (m, d) (m', d)"
| warm_hash: "WarmHash l i m = (r', m') \<Longrightarrow> mstep l rt (m, d) (m', d)"
| warm_manifest: "Mgr_WarmManifest l slug m = (r'', m') \<Longrightarrow> mstep l rt (m, d) (m', d)"
| drop_warm: "DropWarm l slug m = (e, m') \<Longrightarrow> mstep l rt (m, d) (m', d)"
| acquire: "AcquireLease now i owner ttl (runs m) = (rs, x) \<Longrightarrow> mstep l rt (m, d) (m\<lparr>runs := rs\<rparr>, d)"
| renew: "RenewLease now now' i owner g ttl (runs m) = (rs, y) \<Longrightarrow> mstep l rt (m, d) (m\<lparr>runs := rs\<rparr>, d)"
| release: "ReleaseLease i owner g (runs m) = (rs, z) \<Longrightarrow> mstep l rt (m, d) (m\<lparr>runs := rs\<rparr>, d)"
| begin_exec: "BeginExec now i cr (runs m) = (rs, s) \<Longrightarrow> mstep l rt (m, d) (m\<lparr>runs := rs\<rparr>, d)"
| finish_exec: "mstep l rt (m, d) (m\<lparr>runs := finishExec i (runs m)\<rparr>, d)"
| exec_call: "with_rt (rt_Exec rt c cmd cwd env timeout) m = (x', m') \<Longrightarrow> mstep l rt (m, d) (m', d)"
| write_call: "with_rt (rt_WriteFile rt c path data) m = (e, m') \<Longrightarrow> mstep l rt (m, d) (m', d)"
| read_call: "with_rt (rt_ReadFile rt c path) m = (r, m') \<Longrightarrow> mstep l rt (m, d) (m', d)"

inductive_cases mstep_cases: "mstep l rt s s'"

section \<open>What a step may do to the registry and the history\<close>

text \<open>The containers the registry knows, by run.\<close>

definition containers :: "registry \<Rightarrow> string \<Rightarrow> string option" where
  "containers rs i = map_option ContainerID (rs i)"

lemma lease_containers:
  "containers (fst (AcquireLease now i owner ttl rs)) = containers rs"
  "containers (fst (RenewLease now now' i owner g ttl rs)) = containers rs"
  "containers (fst (ReleaseLease i owner g rs)) = containers rs"
  "containers (fst (BeginExec now i cr rs)) = containers rs"
  "containers (finishExec i rs) = containers rs"
  by (auto simp: AcquireLease_def RenewLease_def ReleaseLease_def BeginExec_def finishExec_def containers_def
      fun_eq_iff Let_def split: option.splits)

lemma lease_containersE:
  "AcquireLease now i owner ttl rs = (rs', x) \<Longrightarrow> containers rs' = containers rs"
  "RenewLease now now' i owner g ttl rs = (rs', y) \<Longrightarrow> containers rs' = containers rs"
  "ReleaseLease i owner g rs = (rs', z) \<Longrightarrow> containers rs' = containers rs"
  "BeginExec now i cr rs = (rs', s) \<Longrightarrow> containers rs' = containers rs"
  by (metis fst_conv lease_containers)+

lemma quiet_fields:
  "Snapshot l rt now rnd i m = (r, m') \<Longrightarrow> runs m' = runs m \<and> history m' = history m"
  "DeleteSnapshot rt ref m = (e, m') \<Longrightarrow> runs m' = runs m \<and> history m' = history m"
  "CommitWarm l others (\<lambda>m. m) now rnd i repo m = (r', m') \<Longrightarrow> runs m' = runs m \<and> history m' = history m"
  "WarmHash l i m = (r', m') \<Longrightarrow> runs m' = runs m \<and> history m' = history m"
  "Mgr_WarmManifest l slug m = (r'', m') \<Longrightarrow> runs m' = runs m \<and> history m' = history m"
  "DropWarm l slug m = (e, m') \<Longrightarrow> runs m' = runs m \<and> history m' = history m"
proof -
  show "Snapshot l rt now rnd i m = (r, m') \<Longrightarrow> runs m' = runs m \<and> history m' = history m"
    by (auto simp: Snapshot_def Let_def split: option.splits sum.splits prod.splits dest: with_rtE)
  show "DeleteSnapshot rt ref m = (e, m') \<Longrightarrow> runs m' = runs m \<and> history m' = history m"
    by (auto simp: DeleteSnapshot_def split: if_splits dest: with_rtE)
  show "CommitWarm l others (\<lambda>m. m) now rnd i repo m = (r', m') \<Longrightarrow> runs m' = runs m \<and> history m' = history m"
    by (auto simp: CommitWarm_def Let_def split: option.splits sum.splits prod.splits if_splits)
  show "WarmHash l i m = (r', m') \<Longrightarrow> runs m' = runs m \<and> history m' = history m"
    by (auto simp: WarmHash_def split: option.splits sum.splits prod.splits if_splits)
  show "Mgr_WarmManifest l slug m = (r'', m') \<Longrightarrow> runs m' = runs m \<and> history m' = history m"
    by (auto simp: Mgr_WarmManifest_def Let_def split: option.splits sum.splits prod.splits)
  show "DropWarm l slug m = (e, m') \<Longrightarrow> runs m' = runs m \<and> history m' = history m"
    by (auto simp: DropWarm_def Let_def split: option.splits sum.splits prod.splits)
qed

section \<open>The invariant\<close>

definition accounted :: "'r daemon_state \<Rightarrow> string \<Rightarrow> bool" where
  "accounted s c \<longleftrightarrow> (\<exists>i. containers (runs (fst s)) i = Some c) \<or> (\<exists>i run. (i, run) \<in> set (snd s) \<and> ContainerID run = c) \<or>
     (\<exists>ok. Removed c ok \<in> set (history (fst s)))"

definition mgr_inv :: "'r daemon_state \<Rightarrow> bool" where
  "mgr_inv s \<longleftrightarrow> (\<forall>c spec. Started c spec \<in> set (history (fst s)) \<longrightarrow> accounted s c) \<and>
     distinct (map fst (snd s)) \<and> (\<forall>i \<in> fst ` set (snd s). runs (fst s) i = None)"

lemma accounted_tracked: "containers (runs m) i = Some c \<Longrightarrow> accounted (m, d) c"
  by (auto simp: accounted_def)

lemma accounted_leaving: "(i, run) \<in> set d \<Longrightarrow> ContainerID run = c \<Longrightarrow> accounted (m, d) c"
  by (auto simp: accounted_def)

lemma accounted_removed: "Removed c ok \<in> set (history m) \<Longrightarrow> accounted (m, d) c"
  by (auto simp: accounted_def)

lemma accountedE:
  assumes "accounted (m, d) c"
  obtains (tracked) i where "containers (runs m) i = Some c" | (leaving) i run where "(i, run) \<in> set d" "ContainerID run = c"
  | (removed) ok where "Removed c ok \<in> set (history m)"
  using assms by (auto simp: accounted_def)

lemma mgr_invI:
  "(\<And>c spec. Started c spec \<in> set (history m) \<Longrightarrow> accounted (m, d) c) \<Longrightarrow> distinct (map fst d) \<Longrightarrow>
   (\<And>i run. (i, run) \<in> set d \<Longrightarrow> runs m i = None) \<Longrightarrow> mgr_inv (m, d)"
  by (auto simp: mgr_inv_def)

lemma mgr_invD:
  assumes "mgr_inv (m, d)"
  shows "Started c spec \<in> set (history m) \<Longrightarrow> accounted (m, d) c" and "distinct (map fst d)"
    and "(i, run) \<in> set d \<Longrightarrow> runs m i = None"
  using assms by (auto simp: mgr_inv_def)

text \<open>A step that keeps the containers of the registry and adds no start to the history.\<close>

lemma mgr_inv_same:
  assumes "mgr_inv (m, d)" and "containers (runs m') = containers (runs m)"
    and "set (history m) \<subseteq> set (history m')"
    and "\<And>c spec. Started c spec \<in> set (history m') \<Longrightarrow> Started c spec \<in> set (history m) \<or> (\<exists>ok. Removed c ok \<in> set (history m'))"
  shows "mgr_inv (m', d)"
proof (rule mgr_invI)
  have none: "runs m' i = None \<longleftrightarrow> runs m i = None" for i
    using assms(2) by (metis containers_def map_option_is_None)
  show "accounted (m', d) c" if s: "Started c spec \<in> set (history m')" for c spec
  proof (cases "\<exists>ok. Removed c ok \<in> set (history m')")
    case True
    then show ?thesis using accounted_removed by blast
  next
    case False
    then have "accounted (m, d) c" using assms(4) [OF s] mgr_invD(1) [OF assms(1)] by blast
    then show ?thesis by (rule accountedE) (use assms(2,3) in \<open>auto intro: accounted_tracked accounted_leaving accounted_removed\<close>)
  qed
  show "distinct (map fst d)" using mgr_invD(2) [OF assms(1)] .
  show "runs m' i = None" if "(i, run) \<in> set d" for i run using none mgr_invD(3) [OF assms(1) that] by simp
qed

lemma mgr_inv_quiet:
  "mgr_inv (m, d) \<Longrightarrow> containers (runs m') = containers (runs m) \<Longrightarrow> history m' = history m \<Longrightarrow> mgr_inv (m', d)"
  by (rule mgr_inv_same) auto

lemma mgr_inv_create:
  assumes "mgr_inv (m, d)" and "Create l rt others now rnd listen req m = (r, m')"
    and "\<And>i. NewULID now rnd = Inr i \<Longrightarrow> runs m i = None \<and> i \<notin> fst ` set d"
  shows "mgr_inv (m', d)"
  using assms(2)
proof (cases rule: CreateE)
  case refused
  then show ?thesis using assms(1) by simp
next
  case no_volume
  then show ?thesis using prepare_warm_ok [OF no_volume(3)] by (intro mgr_inv_quiet [OF assms(1)]) simp_all
next
  case (no_proxy e network extra ttl i warm seed m1 m2)
  then show ?thesis using prepare_warm_ok [OF no_proxy(3)] open_private_ok [OF no_proxy(4)]
    by (intro mgr_inv_quiet [OF assms(1)]) simp_all
next
  case (no_container e network extra ttl i warm seed spec m1 m2 m3)
  have "runs m' = runs m" and "history m' = history m \<or> (\<exists>c ok. history m' = history m @ [Started c spec, Removed c ok])"
    using prepare_warm_ok [OF no_container(3)] open_private_ok [OF no_container(4)]
      start_container_ok [OF no_container(5)] no_container(7) by simp_all
  then show ?thesis by (intro mgr_inv_same [OF assms(1)]) auto
next
  case (created network extra ttl i warm seed spec m1 m2 m3 c run)
  note f = assms(3) [OF created(2)]
  have h: "history m' = history m @ [Started c spec]" and rs: "runs m' = (runs m)(i \<mapsto> run)"
    using prepare_warm_ok [OF created(3)] open_private_ok [OF created(4)]
      start_container_ok [OF created(5)] created(8) by simp_all
  have cs: "containers (runs m') = (containers (runs m))(i \<mapsto> c)"
    using rs created(6) by (simp add: containers_def fun_eq_iff)
  have n: "containers (runs m) i = None" using f by (simp add: containers_def)
  show ?thesis
  proof (rule mgr_invI)
    fix x spec'
    assume s: "Started x spec' \<in> set (history m')"
    show "accounted (m', d) x"
    proof (cases "x = c")
      case True
      then show ?thesis using cs by (intro accounted_tracked [of _ i]) simp
    next
      case False
      then have "accounted (m, d) x" using s h mgr_invD(1) [OF assms(1)] by auto
      then show ?thesis
      proof (rule accountedE)
        fix j
        assume "containers (runs m) j = Some x"
        then show ?thesis using cs n by (intro accounted_tracked [of _ j]) auto
      qed (use h in \<open>auto intro: accounted_leaving accounted_removed\<close>)
    qed
  next
    show "distinct (map fst d)" using mgr_invD(2) [OF assms(1)] .
  next
    show "runs m' j = None" if "(j, r) \<in> set d" for j r
      using that f rs mgr_invD(3) [OF assms(1) that] by force
  qed
qed

lemma mgr_inv_leave:
  assumes "mgr_inv (m, d)" and "untrack i m = (Inr run, m')" shows "mgr_inv (m', (i, run) # d)"
proof -
  have r: "runs m i = Some run" and m': "m' = m\<lparr>runs := (runs m)(i := None)\<rparr>"
    using assms(2) by (auto simp: untrack_def split: option.splits)
  show ?thesis
  proof (rule mgr_invI)
    fix c spec
    assume "Started c spec \<in> set (history m')"
    then have "accounted (m, d) c" using m' mgr_invD(1) [OF assms(1)] by simp
    then show "accounted (m', (i, run) # d) c"
    proof (rule accountedE)
      fix j
      assume j: "containers (runs m) j = Some c"
      show ?thesis
      proof (cases "j = i")
        case True
        then show ?thesis using j r by (intro accounted_leaving [of i run]) (simp_all add: containers_def)
      next
        case False
        then show ?thesis using j m' by (intro accounted_tracked [of _ j]) (simp add: containers_def)
      qed
    qed (use m' in \<open>auto intro: accounted_leaving accounted_removed\<close>)
  next
    have "i \<notin> fst ` set d" using mgr_invD(3) [OF assms(1)] r by force
    then show "distinct (map fst ((i, run) # d))" using mgr_invD(2) [OF assms(1)] by simp
  next
    show "runs m' j = None" if "(j, r') \<in> set ((i, run) # d)" for j r'
      using that m' mgr_invD(3) [OF assms(1)] by auto
  qed
qed

lemma finish_destroy_fields:
  assumes "finish_destroy l rt i run m = (e, m')"
  shows "runs m' = (if e = None then runs m else (runs m)(i \<mapsto> run)) \<and>
    history m' = history m @ [Removed (ContainerID run) (e = None)]"
proof -
  obtain e' m1 where rm: "remove_container rt (ContainerID run) m = (e', m1)" by fastforce
  show ?thesis using assms rm remove_containerE [OF rm]
    by (cases e') (auto simp: finish_destroy_def)
qed

lemma mgr_inv_left:
  assumes "mgr_inv (m, d)" and "(i, run) \<in> set d" and "finish_destroy l rt i run m = (e, m')"
  shows "mgr_inv (m', remove1 (i, run) d)"
proof -
  note f = finish_destroy_fields [OF assms(3)]
  have i: "runs m i = None" and dist: "distinct (map fst d)"
    using mgr_invD(2,3) [OF assms(1)] assms(2) by blast+
  then have d1: "set (remove1 (i, run) d) = set d - {(i, run)}"
    by (simp add: distinct_map set_remove1_eq)
  have inj: "r' = run" if "(i, r') \<in> set d" for r'
    using inj_onD [of fst "set d" "(i, r')" "(i, run)"] dist that assms(2) by (simp add: distinct_map)
  show ?thesis
  proof (rule mgr_invI)
    fix c spec
    assume "Started c spec \<in> set (history m')"
    then have "accounted (m, d) c" using f mgr_invD(1) [OF assms(1)] by auto
    then show "accounted (m', remove1 (i, run) d) c"
    proof (rule accountedE)
      fix j
      assume j: "containers (runs m) j = Some c"
      then have "j \<noteq> i" using i by (auto simp: containers_def)
      then show ?thesis using j f by (intro accounted_tracked [of _ j]) (simp add: containers_def)
    next
      fix j r'
      assume j: "(j, r') \<in> set d" "ContainerID r' = c"
      show ?thesis
      proof (cases "(j, r') = (i, run)")
        case True
        then show ?thesis using f j by (intro accounted_removed [of _ "e = None"]) simp
      next
        case False
        then show ?thesis using j d1 by (intro accounted_leaving [of j r']) auto
      qed
    qed (use f in \<open>auto intro: accounted_removed\<close>)
  next
    show "distinct (map fst (remove1 (i, run) d))"
      using dist by (simp add: distinct_map d1 distinct_remove1 inj_on_diff)
  next
    fix j r'
    assume j: "(j, r') \<in> set (remove1 (i, run) d)"
    then have "j \<noteq> i" using inj unfolding d1 by auto
    then show "runs m' j = None" using j f mgr_invD(3) [OF assms(1), of j r'] unfolding d1 by simp
  qed
qed

lemma mgr_inv_reap:
  assumes "mgr_inv (m, d)" and "Reap l rt now ids m = (n, m')" and "set ids = dom (runs m)"
  shows "mgr_inv (m', d)"
proof -
  note rp = Reap_fields [OF assms(2) refl]
  define rs where "rs = expired_runs now ids (runs m)"
  obtain oks where oks: "length oks = length rs"
      "history m' = history m @ map2 (\<lambda>run ok. Removed (ContainerID run) ok) rs oks"
    using rp unfolding rs_def by blast
  have gone: "\<exists>ok. Removed (ContainerID run) ok \<in> set (history m')" if r: "run \<in> set rs" for run
  proof -
    obtain k where "k < length rs" "rs ! k = run" using r unfolding in_set_conv_nth by blast
    then have "(run, oks ! k) \<in> set (zip rs oks)" using oks(1) by (auto simp: set_zip)
    then show ?thesis unfolding oks(2) by (auto intro!: exI [of _ "oks ! k"] image_eqI)
  qed
  have tracked: "accounted (m', d) c" if c: "containers (runs m) i = Some c" for i c
  proof (cases "expired now (runs m) i")
    case True
    then obtain run where run: "runs m i = Some run" "\<not> now < ExpiresAt run" by (auto simp: expired_def)
    have "i \<in> set ids" using run(1) assms(3) by auto
    then have "the (runs m i) \<in> set rs"
      using run by (auto simp: rs_def expired_runs_def List_def intro!: image_eqI [of _ _ i])
    moreover have "ContainerID run = c" using c run(1) by (simp add: containers_def)
    ultimately show ?thesis using gone run(1) accounted_removed by (metis option.sel)
  next
    case False
    then show ?thesis using c rp by (intro accounted_tracked [of _ i]) (simp add: containers_def)
  qed
  show ?thesis
  proof (rule mgr_invI)
    fix c spec
    assume "Started c spec \<in> set (history m')"
    then have "accounted (m, d) c" using oks(2) mgr_invD(1) [OF assms(1)] by auto
    then show "accounted (m', d) c"
      by (rule accountedE) (use tracked oks(2) in \<open>auto intro: accounted_leaving accounted_removed\<close>)
  next
    show "distinct (map fst d)" using mgr_invD(2) [OF assms(1)] .
  next
    show "runs m' i = None" if "(i, run) \<in> set d" for i run
      using rp mgr_invD(3) [OF assms(1) that] by simp
  qed
qed

lemma mstep_inv: "mstep l rt s s' \<Longrightarrow> mgr_inv s \<Longrightarrow> mgr_inv s'"
proof (induction rule: mstep.induct)
  case create
  show ?case by (rule mgr_inv_create [OF create.prems create.hyps])
next
  case leave
  show ?case by (rule mgr_inv_leave [OF leave.prems leave.hyps])
next
  case left
  show ?case by (rule mgr_inv_left [OF left.prems left.hyps])
next
  case reap
  show ?case by (rule mgr_inv_reap [OF reap.prems reap.hyps])
next
  case acquire
  show ?case by (rule mgr_inv_quiet [OF acquire.prems]) (simp_all add: lease_containersE(1) [OF acquire.hyps])
next
  case renew
  show ?case by (rule mgr_inv_quiet [OF renew.prems]) (simp_all add: lease_containersE(2) [OF renew.hyps])
next
  case release
  show ?case by (rule mgr_inv_quiet [OF release.prems]) (simp_all add: lease_containersE(3) [OF release.hyps])
next
  case begin_exec
  show ?case by (rule mgr_inv_quiet [OF begin_exec.prems]) (simp_all add: lease_containersE(4) [OF begin_exec.hyps])
next
  case finish_exec
  show ?case by (rule mgr_inv_quiet [OF finish_exec.prems]) (simp_all add: lease_containers)
next
  case exec_call
  show ?case by (rule mgr_inv_quiet [OF exec_call.prems]) (simp_all add: with_rtE [OF exec_call.hyps])
next
  case write_call
  show ?case by (rule mgr_inv_quiet [OF write_call.prems]) (simp_all add: with_rtE [OF write_call.hyps])
next
  case read_call
  show ?case by (rule mgr_inv_quiet [OF read_call.prems]) (simp_all add: with_rtE [OF read_call.hyps])
qed (rule mgr_inv_quiet, assumption, simp add: quiet_fields, simp add: quiet_fields)+

lemma msteps_inv: "(mstep l rt)\<^sup>*\<^sup>* s s' \<Longrightarrow> mgr_inv s \<Longrightarrow> mgr_inv s'"
  by (induction rule: rtranclp_induct) (auto intro: mstep_inv)

text \<open>
  No container is forgotten: however requests, destroys and reaper passes interleave, and whatever
  the runtime answers, every container the runtime ever handed out belongs to a registered run or to
  one whose destroy is under way, or its removal has been asked for.
\<close>

theorem no_container_forgotten:
  assumes "(mstep l rt)\<^sup>*\<^sup>* (m0, []) (m, d)" and "history m0 = []" and "Started c spec \<in> set (history m)"
  shows "(\<exists>i run. runs m i = Some run \<and> ContainerID run = c) \<or> (\<exists>i run. (i, run) \<in> set d \<and> ContainerID run = c) \<or>
    (\<exists>ok. Removed c ok \<in> set (history m))"
proof -
  have "mgr_inv (m0, [])" using assms(2) by (simp add: mgr_inv_def)
  from msteps_inv [OF assms(1) this] have "accounted (m, d) c" using assms(3) by (auto simp: mgr_inv_def)
  then show ?thesis by (auto simp: accounted_def containers_def)
qed

theorem no_container_forgotten_witness:
  "\<exists>m d. (mstep demo_json (demo_rt (Inr ''c1'') None))\<^sup>*\<^sup>* (demo_mgr Map.empty, []) (m, d) \<and>
    (\<exists>i run. runs m i = Some run \<and> ContainerID run = ''c1'')"
proof -
  let ?rt = "demo_rt (Inr ''c1'') None"
  let ?c = "Create demo_json ?rt undisturbed 0 (Some (replicate 10 0)) None demo_req (demo_mgr Map.empty)"
  have h: "history (snd ?c) = [Started ''c1'' (create_spec demo_json demo_id [] NetworkNone demo_req
      (Some (\<lparr>WarmRepo = ''o/n'', Booted = False, WarmLockHash = [], WarmRepoDir = []\<rparr>, [''runs'', demo_id], ''/work'')))]"
    unfolding demo_mgr_def two_runs_def demo_id_def by code_simp
  obtain r m where c: "?c = (r, m)" by fastforce
  have "mstep demo_json ?rt (demo_mgr Map.empty, []) (m, [])"
    by (rule mstep.create [OF c]) (simp add: demo_mgr_def)
  then have s: "(mstep demo_json ?rt)\<^sup>*\<^sup>* (demo_mgr Map.empty, []) (m, [])" by (rule r_into_rtranclp)
  have "history (demo_mgr Map.empty) = []" by (simp add: demo_mgr_def)
  from no_container_forgotten [OF s this] h c s show ?thesis by auto
qed

end
