(* ===== verification/Docker_Runtime.thy ===== *)
theory Docker_Runtime
  imports Manager_Steps
begin

text \<open>
  The docker runtime behind the manager: what the manager relies on of a runtime, as a locale over the
  interface \<open>Runtime\<close>, the record of functions that \<open>DockerRuntime\<close> implements, and the interpretation of the
  one on the other. The state of the docker runtime is the list of commands it has run.
\<close>

section \<open>The interface\<close>

text \<open>
  \<open>did s\<close> are the starts and removals the runtime has carried out. What it reports as done has been
  done, and no call takes one back.
\<close>

locale container_runtime =
  fixes rt :: "'r runtime" and did :: "'r \<Rightarrow> rt_event set"
  assumes remove_ok: "rt_Remove rt c s = (None, s') \<Longrightarrow> Removed c True \<in> did s'"
    and create_ok: "rt_Create rt spec s = (Inr c, s') \<Longrightarrow> Started c spec \<in> did s'"
    and remove_mono: "did s \<subseteq> did (snd (rt_Remove rt c s))"
    and create_mono: "did s \<subseteq> did (snd (rt_Create rt spec s))"
    and seed_mono: "did s \<subseteq> did (snd (rt_SeedVolume rt c ref v s))"
    and snapshot_mono: "did s \<subseteq> did (snd (rt_Snapshot rt c v ref s))"
    and is_snapshot_mono: "did s \<subseteq> did (snd (rt_ImageIsSnapshot rt ref s))"
    and remove_image_mono: "did s \<subseteq> did (snd (rt_RemoveImage rt ref s))"
    and exec_mono: "did s \<subseteq> did (snd (rt_Exec rt c cmd cwd env timeout s))"
    and write_mono: "did s \<subseteq> did (snd (rt_WriteFile rt c path data s))"
    and read_mono: "did s \<subseteq> did (snd (rt_ReadFile rt c path s))"

text \<open>The manager's history tells the truth about what the runtime reported as done.\<close>

definition done_events :: "rt_event list \<Rightarrow> rt_event set" where
  "done_events h = {e \<in> set h. \<forall>c. e \<noteq> Removed c False}"

definition honest :: "('r \<Rightarrow> rt_event set) \<Rightarrow> 'r mgr \<Rightarrow> bool" where
  "honest did m \<longleftrightarrow> done_events (history m) \<subseteq> did (rt_state m)"

lemma done_events_snoc [simp]:
  "done_events (h @ [Removed c ok]) = done_events h \<union> (if ok then {Removed c True} else {})"
  "done_events (h @ [Started c spec]) = insert (Started c spec) (done_events h)"
  by (auto simp: done_events_def)

lemma honest_same: "honest did m \<Longrightarrow> history m' = history m \<Longrightarrow> rt_state m' = rt_state m \<Longrightarrow> honest did m'"
  by (simp add: honest_def)

text \<open>The operations that never call the runtime.\<close>

lemma quiet_runtime:
  "untrack i m = (Inr run, m') \<Longrightarrow> rt_state m' = rt_state m \<and> history m' = history m"
  "CommitWarm l others (\<lambda>m. m) now rnd i repo m = (r', m') \<Longrightarrow> rt_state m' = rt_state m"
  "WarmHash l i m = (r', m') \<Longrightarrow> rt_state m' = rt_state m"
  "Mgr_WarmManifest l slug m = (r'', m') \<Longrightarrow> rt_state m' = rt_state m"
  "DropWarm l slug m = (e, m') \<Longrightarrow> rt_state m' = rt_state m"
proof -
  show "untrack i m = (Inr run, m') \<Longrightarrow> rt_state m' = rt_state m \<and> history m' = history m"
    by (auto simp: untrack_def split: option.splits)
  show "CommitWarm l others (\<lambda>m. m) now rnd i repo m = (r', m') \<Longrightarrow> rt_state m' = rt_state m"
    by (auto simp: CommitWarm_def Let_def split: option.splits sum.splits prod.splits if_splits)
  show "WarmHash l i m = (r', m') \<Longrightarrow> rt_state m' = rt_state m"
    by (auto simp: WarmHash_def split: option.splits sum.splits prod.splits if_splits)
  show "Mgr_WarmManifest l slug m = (r'', m') \<Longrightarrow> rt_state m' = rt_state m"
    by (auto simp: Mgr_WarmManifest_def Let_def split: option.splits sum.splits prod.splits)
  show "DropWarm l slug m = (e, m') \<Longrightarrow> rt_state m' = rt_state m"
    by (auto simp: DropWarm_def Let_def split: option.splits sum.splits prod.splits)
qed

context container_runtime
begin

lemma honest_remove:
  assumes "honest did m" and "remove_container rt c m = (e, m')" shows "honest did m'"
proof -
  have m': "history m' = history m @ [Removed c (e = None)]" "rt_state m' = snd (rt_Remove rt c (rt_state m))"
      "rt_Remove rt c (rt_state m) = (e, rt_state m')"
    using assms(2) by (auto simp: remove_container_def split: prod.splits)
  then show ?thesis
    using assms(1) remove_mono [of "rt_state m" c] remove_ok [of c "rt_state m" "rt_state m'"] by (auto simp: honest_def)
qed

lemma honest_with_rt:
  assumes "honest did m" and "with_rt f m = (x, m')" and "\<And>s. did s \<subseteq> did (snd (f s))"
  shows "honest did m'"
proof -
  have "history m' = history m" "rt_state m' = snd (f (rt_state m))"
    using assms(2) by (auto simp: with_rt_def split: prod.splits)
  then show ?thesis using assms(1) assms(3) [of "rt_state m"] by (auto simp: honest_def)
qed

lemma honest_run:
  assumes "honest did m" and "run_container rt spec m = (r, m')" shows "honest did m'"
proof -
  obtain x s where x: "rt_Create rt spec (rt_state m) = (x, s)" by fastforce
  have mono: "did (rt_state m) \<subseteq> did s" using create_mono [of "rt_state m" spec] x by simp
  show ?thesis
  proof (cases x)
    case Inl
    then show ?thesis using assms x subsetD [OF mono] by (auto simp: run_container_def honest_def)
  next
    case (Inr c)
    then have "Started c spec \<in> did s" using create_ok x by blast
    then show ?thesis using assms x subsetD [OF mono] Inr by (auto simp: run_container_def honest_def)
  qed
qed

lemma honest_start:
  assumes "honest did m" and "start_container rt seed spec m = (r, m')" shows "honest did m'"
proof -
  obtain x m1 where x: "run_container rt spec m = (x, m1)" by fastforce
  note h1 = honest_run [OF assms(1) x]
  show ?thesis
  proof (cases "\<exists>c. x = Inr c \<and> seed")
    case False
    then have "m' = m1" using assms(2) x by (auto simp: start_container_def split: sum.splits if_splits)
    then show ?thesis using h1 by simp
  next
    case True
    then obtain c where c: "x = Inr c" and seed by blast
    obtain y m2 where y: "with_rt (rt_SeedVolume rt c (SpecImage spec) (SpecCachePath spec)) m1 = (y, m2)" by fastforce
    have h2: "honest did m2" by (rule honest_with_rt [OF h1 y seed_mono])
    obtain z m3 where z: "remove_container rt c m2 = (z, m3)" by fastforce
    have "m' = m2 \<or> m' = m3"
      using assms(2) x c \<open>seed\<close> y z by (auto simp: start_container_def split: option.splits)
    then show ?thesis using h2 honest_remove [OF h2 z] by blast
  qed
qed

lemma honest_prepare:
  assumes "honest did m" and "prepare_warm l rt others i req m = (r, m')" shows "honest did m'"
proof (cases "rt_state m' = rt_state m")
  case True
  then show ?thesis using honest_same assms prepare_warm_ok by blast
next
  case False
  then have "rt_state m' = snd (rt_ImageIsSnapshot rt (ReqImage req) (rt_state m))"
    using assms(2)
    by (auto simp: prepare_warm_def with_rt_def Let_def split: option.splits sum.splits prod.splits)
  then show ?thesis
    using assms(1) prepare_warm_ok [OF assms(2)] is_snapshot_mono [of "rt_state m" "ReqImage req"]
    by (auto simp: honest_def)
qed

lemma honest_open:
  assumes "honest did m" and "open_private l listen i extra spec m = (r, m')" shows "honest did m'"
proof -
  have "rt_state m' = rt_state m"
    using assms(2) by (auto simp: open_private_def split: if_splits option.splits prod.splits sum.splits)
  then show ?thesis using honest_same assms open_private_ok by blast
qed

lemma Create_honest:
  assumes "honest did m" and "Create l rt others now rnd listen req m = (r, m')" shows "honest did m'"
  using assms(2)
proof (cases rule: CreateE)
  case refused
  then show ?thesis using assms(1) by simp
next
  case no_volume
  then show ?thesis using honest_prepare [OF assms(1)] by blast
next
  case (no_proxy e network extra ttl i warm seed m1 m2)
  have "honest did m2" using honest_open [OF honest_prepare [OF assms(1) no_proxy(3)] no_proxy(4)] .
  then show ?thesis using honest_same [of did m2 m'] no_proxy(6) by (simp split: if_splits)
next
  case (no_container e network extra ttl i warm seed spec m1 m2 m3)
  have "honest did m3"
    using honest_start [OF honest_open [OF honest_prepare [OF assms(1) no_container(3)] no_container(4)] no_container(5)] .
  then show ?thesis using honest_same [of did m3 m'] no_container(7) by (simp split: if_splits)
next
  case (created network extra ttl i warm seed spec m1 m2 m3 c run)
  have "honest did m3"
    using honest_start [OF honest_open [OF honest_prepare [OF assms(1) created(3)] created(4)] created(5)] .
  then show ?thesis using honest_same [of did m3 m'] created(8) by simp
qed

lemma finish_destroy_honest:
  assumes "honest did m" and "finish_destroy l rt i run m = (e, m')" shows "honest did m'"
proof -
  obtain x m1 where x: "remove_container rt (ContainerID run) m = (x, m1)" by fastforce
  have "history m' = history m1" "rt_state m' = rt_state m1"
    using assms(2) x by (auto simp: finish_destroy_def split: option.splits)
  then show ?thesis using honest_same [OF honest_remove [OF assms(1) x]] by blast
qed

lemma finish_destroy_gone:
  assumes "finish_destroy l rt i run m = (None, m')" shows "Removed (ContainerID run) True \<in> did (rt_state m')"
proof -
  obtain x m1 where x: "remove_container rt (ContainerID run) m = (x, m1)" by fastforce
  have "x = None" "rt_state m' = rt_state m1"
    using assms x by (auto simp: finish_destroy_def split: option.splits)
  then show ?thesis using x remove_ok by (auto simp: remove_container_def split: prod.splits)
qed

lemma honest_reap_one:
  assumes "honest did m" shows "honest did (reap_one l rt run m)"
proof -
  have "honest did (closeEgress (ID run) (releaseWarm l run m))" using assms by (rule honest_same) simp_all
  then show ?thesis by (auto simp: reap_one_def intro: honest_remove prod.collapse [symmetric])
qed

lemma honest_reap:
  assumes "honest did m" and "Reap l rt now ids m = (n, m')" shows "honest did m'"
proof -
  have f: "honest did (fold (reap_one l rt) rs m)" if "honest did m" for rs m
    using that by (induction rs arbitrary: m) (simp_all add: honest_reap_one)
  have r: "honest did (m\<lparr>runs := rs\<rparr>)" for rs using assms(1) by (rule honest_same) simp_all
  have c: "honest did (case cache x of None \<Rightarrow> x | Some c \<Rightarrow> x\<lparr>cache := Some (snd (Sweep l (\<lambda>c. c) c))\<rparr>)"
    if "honest did x" for x :: "'r mgr"
    using that by (auto simp: honest_def split: option.splits)
  show ?thesis using assms(2) unfolding Reap_def Let_def by (auto intro!: c f r)
qed

lemma honest_images:
  "honest did m \<Longrightarrow> Snapshot l rt now rnd i m = (r, m') \<Longrightarrow> honest did m'"
  "honest did m \<Longrightarrow> DeleteSnapshot rt ref m = (e, m') \<Longrightarrow> honest did m'"
  by (auto simp: Snapshot_def DeleteSnapshot_def Let_def split: option.splits sum.splits prod.splits if_splits
      elim: honest_with_rt [OF _ _ snapshot_mono] honest_with_rt [OF _ _ remove_image_mono])

lemma honest_step: "mstep l rt s s' \<Longrightarrow> honest did (fst s) \<Longrightarrow> honest did (fst s')"
proof (induction rule: mstep.induct)
  case create
  then show ?case using Create_honest by simp
next
  case left
  then show ?case using finish_destroy_honest by simp
next
  case reap
  then show ?case using honest_reap by simp
next
  case snapshot
  then show ?case using honest_images(1) by simp
next
  case delete_snapshot
  then show ?case using honest_images(2) by simp
next
  case exec_call
  then show ?case using honest_with_rt [OF _ _ exec_mono] by simp
next
  case write_call
  then show ?case using honest_with_rt [OF _ _ write_mono] by simp
next
  case read_call
  then show ?case using honest_with_rt [OF _ _ read_mono] by simp
qed (auto simp: honest_def quiet_fields quiet_runtime)

lemma honest_steps: "(mstep l rt)\<^sup>*\<^sup>* s s' \<Longrightarrow> honest did (fst s) \<Longrightarrow> honest did (fst s')"
  by (induction rule: rtranclp_induct) (auto intro: honest_step)

end

section \<open>The docker runtime as a runtime\<close>

text \<open>
  What the docker runtime meets outside: the daemon, the clock of the polling loop, temporary
  directories, fresh names and the output of commands.
\<close>

record docker_env =
  dk :: daemon
  settings :: DockerRuntime
  fmt_g :: "rat \<Rightarrow> string"
  started_at :: "event list \<Rightarrow> time"
  ticks :: "event list \<Rightarrow> nat \<Rightarrow> time \<times> bool"
  tmp_dir :: "event list \<Rightarrow> string option"
  seed_name :: "event list \<Rightarrow> string"
  env_file :: "event list \<Rightarrow> string option"
  exec_cli :: "event list \<Rightarrow> duration option \<Rightarrow> string list \<Rightarrow> bool \<times> run_outcome"
  exec_output :: "event list \<Rightarrow> string list \<Rightarrow> (string \<times> string) list"
  file_chunks :: "event list \<Rightarrow> string list \<Rightarrow> string list \<times> bool"

text \<open>
  The fuel is that of \<open>waitRunning\<close>: 302 polls 50 ms apart pass the deadline of 15 s, so that \<open>None\<close>
  does not occur with a clock that runs.
\<close>

definition docker_create :: "docker_env \<Rightarrow> CreateSpec \<Rightarrow> event list \<Rightarrow> (run_error + string) \<times> event list" where
  "docker_create e spec tr =
     (case Docker_Create (fmt_g e) 302 (started_at e tr) (ticks e tr) (dk e) (settings e) spec tr of
        None \<Rightarrow> (Inl (ErrOther ''still polling''), tr)
      | Some r \<Rightarrow> r)"

definition docker_exec :: "docker_env \<Rightarrow> string \<Rightarrow> string \<Rightarrow> string \<Rightarrow> (string \<times> string) list \<Rightarrow> duration \<Rightarrow> event list \<Rightarrow>
    ((string \<times> string) list \<times> int \<times> bool \<times> run_error option) \<times> event list" where
  "docker_exec e c cmd cwd env t tr =
     (let r = Docker_Exec (exec_cli e tr) (env_file e tr) c cmd cwd env t;
          args = execArgs c (if cwd \<noteq> [] then cwd else WorkDir) cmd t (if env \<noteq> [] then [the (env_file e tr)] else [])
      in if env \<noteq> [] \<and> env_file e tr = None then (([], r), tr)
         else ((exec_output e tr args, r), tr @ [Cmd args (fst r = 0)]))"

text \<open>A failing reader makes the command fail after it has stored what the reader gave.\<close>

definition docker_write :: "docker_env \<Rightarrow> string \<Rightarrow> string \<Rightarrow> reader \<Rightarrow> event list \<Rightarrow> run_error option \<times> event list" where
  "docker_write e c path data tr =
     (let (out, tr) = docker (dk e) (writeFileArgs c path) tr
      in (if cli_ok out \<and> \<not> snd data then None else fails ''write file: '' out, tr))"

definition docker_runtime :: "docker_env \<Rightarrow> event list runtime" where
  "docker_runtime e = \<lparr>rt_Create = docker_create e, rt_Exec = docker_exec e, rt_WriteFile = docker_write e,
     rt_ReadFile = (\<lambda>c path tr. (Docker_ReadFile (file_chunks e tr) c path, tr)),
     rt_Remove = Docker_Remove (dk e),
     rt_Snapshot = (\<lambda>c v ref tr. Docker_Snapshot (dk e) (tmp_dir e tr) (seed_name e tr) c v ref tr),
     rt_SeedVolume = (\<lambda>c ref v tr. SeedVolume (dk e) (tmp_dir e tr) (seed_name e tr) c ref v tr),
     rt_ImageIsSnapshot = (\<lambda>ref tr. (Inr (ImageIsSnapshot ref), tr)),
     rt_RemoveImage = RemoveImage (dk e)\<rparr>"

definition docker_did :: "docker_env \<Rightarrow> event list \<Rightarrow> rt_event set" where
  "docker_did e tr = {Removed c True | c. Cmd [''rm'', ''-f'', c] True \<in> set tr} \<union>
     {Started c spec | c spec. Cmd (createArgs (fmt_g e) (settings e) spec) True \<in> set tr}"

text \<open>The commands of the docker runtime only ever add to the list.\<close>

definition extends :: "event list \<Rightarrow> event list \<Rightarrow> bool" where
  "extends tr tr' \<longleftrightarrow> set tr \<subseteq> set tr'"

lemma extends_docker: "docker k args tr = (out, tr') \<Longrightarrow> extends tr tr'"
  by (auto simp: docker_def extends_def Let_def)

lemma extends_trans: "extends a b \<Longrightarrow> extends b c \<Longrightarrow> extends a c"
  by (auto simp: extends_def)

lemma waitRunning_extends:
  "waitRunning fuel ts n deadline k c tr = Some (e, tr') \<Longrightarrow> extends tr tr'"
proof (induction fuel arbitrary: n tr)
  case (Suc fuel)
  obtain out tr1 where d: "docker k [''inspect'', ''-f'', ''{{.State.Running}}'', c] tr = (out, tr1)" by fastforce
  note x1 = extends_docker [OF d]
  show ?case
    using Suc.prems d x1 extends_trans [OF x1 Suc.IH] by (auto split: if_splits)
qed simp

lemma Docker_Create_extends:
  assumes "Docker_Create g fuel now ts k d spec tr = Some (r, tr')"
  shows "extends tr tr' \<and> (\<forall>c. r = Inr c \<longrightarrow> Cmd (createArgs g d spec) True \<in> set tr')"
proof -
  obtain out tr1 where o: "docker k (createArgs g d spec) tr = (out, tr1)" by fastforce
  have tr1: "tr1 = tr @ [Cmd (createArgs g d spec) (cli_ok out)]" using o by (auto simp: docker_def Let_def)
  show ?thesis
  proof (cases "cli_ok out")
    case False
    then show ?thesis using assms o tr1 by (auto simp: Docker_Create_def extends_def)
  next
    case True
    obtain e tr2 where w: "waitRunning fuel ts 0 (now + 15 * second) k (TrimSpace (cli_text out)) tr1 = Some (e, tr2)"
      using assms o True by (auto simp: Docker_Create_def Let_def split: option.splits)
    have x: "extends tr1 tr2" using waitRunning_extends [OF w] .
    obtain y tr3 where rm: "Docker_Remove k (TrimSpace (cli_text out)) tr2 = (y, tr3)" by fastforce
    have x3: "extends tr2 tr3"
      using rm extends_docker by (auto simp: Docker_Remove_def Let_def split: prod.splits)
    show ?thesis
      using assms o True w rm x x3 tr1 extends_trans
      by (cases e) (auto simp: Docker_Create_def Let_def extends_def)
  qed
qed

lemma cmd_extends [simp]: "set tr \<subseteq> set (snd (docker k args tr))"
  by (simp add: docker_def Let_def subset_insertI2)

lemma Docker_Remove_extends: "set tr \<subseteq> set (snd (Docker_Remove k c tr))"
  by (auto simp: Docker_Remove_def docker_def Let_def)

lemma RemoveImage_extends: "set tr \<subseteq> set (snd (RemoveImage k c tr))"
  by (auto simp: RemoveImage_def docker_def Let_def)

lemma SeedVolume_extends: "set tr \<subseteq> set (snd (SeedVolume k tmp seed c ref v tr))"
  by (auto simp: SeedVolume_def docker_def Let_def drop_seed_def split: option.splits)

lemma Docker_Snapshot_extends: "set tr \<subseteq> set (snd (Docker_Snapshot k tmp seed c v ref tr))"
  by (auto simp: Docker_Snapshot_def docker_def Let_def drop_seed_def drop_stage_def split: option.splits)

lemma docker_did_mono: "set tr \<subseteq> set tr' \<Longrightarrow> docker_did e tr \<subseteq> docker_did e tr'"
  by (auto simp: docker_did_def)

interpretation docker: container_runtime "docker_runtime e" "docker_did e" for e
proof
  fix c s s' spec ref v cmd cwd env timeout path data
  show "Removed c True \<in> docker_did e s'" if "rt_Remove (docker_runtime e) c s = (None, s')"
    using that by (auto simp: docker_runtime_def Docker_Remove_def docker_def docker_did_def Let_def fails_def
        split: if_splits)
  show "Started c spec \<in> docker_did e s'" if "rt_Create (docker_runtime e) spec s = (Inr c, s')"
    using that Docker_Create_extends [of "fmt_g e" 302 "started_at e s" "ticks e s" "dk e" "settings e" spec s]
    by (auto simp: docker_runtime_def docker_create_def docker_did_def split: option.splits)
  show "docker_did e s \<subseteq> docker_did e (snd (rt_Remove (docker_runtime e) c s))"
    by (rule docker_did_mono) (simp add: docker_runtime_def Docker_Remove_extends)
  show "docker_did e s \<subseteq> docker_did e (snd (rt_Create (docker_runtime e) spec s))"
    using Docker_Create_extends [of "fmt_g e" 302 "started_at e s" "ticks e s" "dk e" "settings e" spec s]
    by (intro docker_did_mono) (auto simp: docker_runtime_def docker_create_def extends_def split: option.splits)
  show "docker_did e s \<subseteq> docker_did e (snd (rt_SeedVolume (docker_runtime e) c ref v s))"
    by (rule docker_did_mono) (simp add: docker_runtime_def SeedVolume_extends)
  show "docker_did e s \<subseteq> docker_did e (snd (rt_Snapshot (docker_runtime e) c v ref s))"
    by (rule docker_did_mono) (simp add: docker_runtime_def Docker_Snapshot_extends)
  show "docker_did e s \<subseteq> docker_did e (snd (rt_ImageIsSnapshot (docker_runtime e) ref s))"
    by (simp add: docker_runtime_def)
  show "docker_did e s \<subseteq> docker_did e (snd (rt_RemoveImage (docker_runtime e) ref s))"
    by (rule docker_did_mono) (simp add: docker_runtime_def RemoveImage_extends)
  show "docker_did e s \<subseteq> docker_did e (snd (rt_Exec (docker_runtime e) c cmd cwd env timeout s))"
    by (rule docker_did_mono) (auto simp: docker_runtime_def docker_exec_def Let_def)
  show "docker_did e s \<subseteq> docker_did e (snd (rt_WriteFile (docker_runtime e) c path data s))"
    by (rule docker_did_mono) (auto simp: docker_runtime_def docker_write_def docker_def Let_def)
  show "docker_did e s \<subseteq> docker_did e (snd (rt_ReadFile (docker_runtime e) c path s))"
    by (simp add: docker_runtime_def)
qed

section \<open>The daemon on docker\<close>

lemma docker_accounting:
  assumes "(mstep l (docker_runtime e))\<^sup>*\<^sup>* (m0, []) (m, d)" and "history m0 = []"
    and "Started c spec \<in> set (history m)"
  shows "Cmd (createArgs (fmt_g e) (settings e) spec) True \<in> set (rt_state m) \<and>
    ((\<exists>i run. runs m i = Some run \<and> ContainerID run = c) \<or>
     (\<exists>i run. (i, run) \<in> set d \<and> ContainerID run = c) \<or>
     (\<exists>ok. Removed c ok \<in> set (history m) \<and> (ok \<longrightarrow> Cmd [''rm'', ''-f'', c] True \<in> set (rt_state m))))"
    (is "_ \<and> ?kept")
proof -
  have "honest (docker_did e) m0" "mgr_inv (m0, [])"
    using assms(2) by (simp_all add: honest_def done_events_def mgr_inv_def)
  then have h: "honest (docker_did e) m" and "accounted (m, d) c"
    using docker.honest_steps [OF assms(1)] msteps_inv [OF assms(1)] assms(3) by (auto simp: mgr_inv_def)
  have did: "x \<in> docker_did e (rt_state m)" if "x \<in> set (history m)" "\<And>c. x \<noteq> Removed c False" for x
    using h that by (auto simp: honest_def done_events_def)
  have "Cmd (createArgs (fmt_g e) (settings e) spec) True \<in> set (rt_state m)"
    using did [OF assms(3)] by (auto simp: docker_did_def)
  moreover have ?kept using \<open>accounted (m, d) c\<close>
  proof (rule accountedE)
    fix ok
    assume r: "Removed c ok \<in> set (history m)"
    have "ok \<longrightarrow> Cmd [''rm'', ''-f'', c] True \<in> set (rt_state m)"
      using did [OF r] by (auto simp: docker_did_def)
    then show ?thesis using r by blast
  qed (auto simp: containers_def)
  ultimately show ?thesis by blast
qed

text \<open>
  C2. The whole daemon on docker: in every state it can reach from an empty history, each container
  the manager was given was started by exactly the \<open>docker run\<close> command of its specification (hardening
  options included), and it still belongs to a run, or its destroy is under way, or the manager asked
  for its removal, and where that was reported as done, \<open>docker rm -f\<close> of it has succeeded.
\<close>

theorem docker_accounts:
  assumes "(mstep l (docker_runtime e))\<^sup>*\<^sup>* (m0, []) (m, d)" and "history m0 = []"
    and "Started c spec \<in> set (history m)"
  shows "Cmd (createArgs (fmt_g e) (settings e) spec) True \<in> set (rt_state m) \<and>
    ((\<exists>i run. runs m i = Some run \<and> ContainerID run = c) \<or>
     (\<exists>i run. (i, run) \<in> set d \<and> ContainerID run = c) \<or>
     (\<exists>ok. Removed c ok \<in> set (history m) \<and> (ok \<longrightarrow> Cmd [''rm'', ''-f'', c] True \<in> set (rt_state m))))"
  using docker_accounting [OF assms] .

definition obliging_env :: docker_env where
  "obliging_env = \<lparr>dk = (\<lambda>tr args. \<lparr>cli_ok = True, cli_text = ''true''\<rparr>), settings = demo_docker, fmt_g = (\<lambda>_. ''1''),
     started_at = (\<lambda>tr. 0), ticks = (\<lambda>tr n. (50000000 * int n, False)), tmp_dir = (\<lambda>tr. Some ''/tmp/x''),
     seed_name = (\<lambda>tr. ''seed''), env_file = (\<lambda>tr. Some ''/tmp/env''), exec_cli = (\<lambda>tr d args. (False, RunOK)),
     exec_output = (\<lambda>tr args. []), file_chunks = (\<lambda>tr args. ([], True))\<rparr>"

definition idle_docker :: "event list mgr" where
  "idle_docker = \<lparr>rt_state = [], runs = Map.empty, cache = None, egress = None, proxy_url = [], history = []\<rparr>"

definition cold_req :: CreateRequest where
  "cold_req = demo_req\<lparr>ReqWarm := None\<rparr>"

lemma cold_create:
  "history (snd (Create demo_json (docker_runtime obliging_env) undisturbed 0 (Some (replicate 10 0)) None cold_req idle_docker)) =
     [Started ''true'' (create_spec demo_json demo_id [] NetworkNone cold_req None)]"
  unfolding idle_docker_def cold_req_def demo_id_def by code_simp

theorem docker_accounts_witness:
  "\<exists>m d. (mstep demo_json (docker_runtime obliging_env))\<^sup>*\<^sup>* (idle_docker, []) (m, d) \<and>
     Cmd (createArgs (\<lambda>_. ''1'') demo_docker (create_spec demo_json demo_id [] NetworkNone cold_req None)) True
       \<in> set (rt_state m)"
proof -
  let ?rt = "docker_runtime obliging_env"
  let ?c = "Create demo_json ?rt undisturbed 0 (Some (replicate 10 0)) None cold_req idle_docker"
  obtain r m where c: "?c = (r, m)" by fastforce
  have "mstep demo_json ?rt (idle_docker, []) (m, [])"
    by (rule mstep.create [OF c]) (simp add: idle_docker_def)
  then have s: "(mstep demo_json ?rt)\<^sup>*\<^sup>* (idle_docker, []) (m, [])" by (rule r_into_rtranclp)
  have "history idle_docker = []" by (simp add: idle_docker_def)
  from docker_accounts [OF s this] cold_create c have
    "Cmd (createArgs (fmt_g obliging_env) (settings obliging_env)
       (create_spec demo_json demo_id [] NetworkNone cold_req None)) True \<in> set (rt_state m)" by auto
  then show ?thesis using s by (auto simp: obliging_env_def)
qed

end
