(* ===== verification/Sse.thy ===== *)
theory Sse
  imports Go_Strings
begin

text \<open>
  The event stream of an exec: \<open>sseWriter\<close> of \<open>internal/server/server.go\<close>, and what the client at the
  other end reads from it. The connection may fail at any write, after any part of the bytes; a string is
  its bytes.
\<close>

section \<open>The writer\<close>

text \<open>\<open>conn w p\<close>: with \<open>w\<close> written so far, \<open>p\<close> is written whole (\<open>None\<close>) or fails after some bytes.\<close>

type_synonym connection = "string \<Rightarrow> string \<Rightarrow> nat option"

record sseWriter =
  wire :: string         \<comment> \<open>what the connection has taken\<close>
  failed :: bool         \<comment> \<open>\<open>err\<close> is set\<close>
  flushed :: nat         \<comment> \<open>how much of it has been flushed\<close>

definition sse_new :: sseWriter where
  "sse_new = \<lparr>wire = [], failed = False, flushed = 0\<rparr>"

abbreviation LF :: char where "LF \<equiv> CHR 0x0A"
abbreviation CR :: char where "CR \<equiv> CHR 0x0D"

text \<open>One \<open>Fprintf\<close> with its early return: nothing is written once \<open>err\<close> is set.\<close>

definition sse_put :: "connection \<Rightarrow> string \<Rightarrow> sseWriter \<Rightarrow> sseWriter" where
  "sse_put conn p s =
     (if failed s then s
      else case conn (wire s) p of
             None \<Rightarrow> s\<lparr>wire := wire s @ p\<rparr>
           | Some n \<Rightarrow> s\<lparr>wire := wire s @ take n p, failed := True\<rparr>)"

definition frame_lines :: "string \<Rightarrow> string \<Rightarrow> string list" where
  "frame_lines event data =
     [''event: '' @ event @ [LF]] @ map (\<lambda>line. ''data: '' @ line @ [LF]) (Split LF data) @ [[LF]]"

definition frame :: "connection \<Rightarrow> string \<Rightarrow> string \<Rightarrow> sseWriter \<Rightarrow> sseWriter" where
  "frame conn event data s =
     (let s = fold (sse_put conn) (frame_lines event data) s
      in if failed s then s else s\<lparr>flushed := length (wire s)\<rparr>)"

text \<open>The writer of a channel: the bytes it reports as written, and whether it reports an error.\<close>

definition channel :: "connection \<Rightarrow> string \<Rightarrow> string \<Rightarrow> sseWriter \<Rightarrow> (nat \<times> bool) \<times> sseWriter" where
  "channel conn event p s =
     (let s = frame conn event p s in (if failed s then (0, True) else (length p, False), s))"

section \<open>The reader\<close>

text \<open>
  Specification: the event-stream grammar of the HTML standard. Lines end in LF, CR or CR LF; a blank
  line dispatches the event collected so far, if it has data; an unfinished line or event at the end
  is dropped.
\<close>

fun sse_lines :: "string \<Rightarrow> string \<Rightarrow> string list" where
  "sse_lines cur [] = []"
| "sse_lines cur (c # s) =
     (if c = LF then cur # sse_lines [] s
      else if c = CR then cur # sse_lines [] (if HasPrefix s [LF] then tl s else s)
      else sse_lines (cur @ [c]) s)"

definition sse_field :: "string \<Rightarrow> string \<times> string" where
  "sse_field line =
     (takeWhile (\<lambda>c. c \<noteq> CHR '':'') line,
      case dropWhile (\<lambda>c. c \<noteq> CHR '':'') line of [] \<Rightarrow> [] | _ # v \<Rightarrow> if HasPrefix v '' '' then tl v else v)"

fun sse_events :: "string \<Rightarrow> string list \<Rightarrow> string list \<Rightarrow> (string \<times> string) list" where
  "sse_events event data [] = []"
| "sse_events event data (line # rest) =
     (if line = [] then
        (if data = [] then sse_events [] [] rest
         else (if event = [] then ''message'' else event, Join [LF] data) # sse_events [] [] rest)
      else
        let (name, value) = sse_field line
        in if name = ''event'' then sse_events value data rest
           else if name = ''data'' then sse_events event (data @ [value]) rest
           else sse_events event data rest)"

definition sse_parse :: "string \<Rightarrow> (string \<times> string) list" where
  "sse_parse stream = sse_events [] [] (sse_lines [] stream)"

section \<open>Writing\<close>

lemma sse_put_failed [simp]: "failed s \<Longrightarrow> sse_put conn p s = s"
  by (simp add: sse_put_def)

lemma fold_put_failed [simp]: "failed s \<Longrightarrow> fold (sse_put conn) ps s = s"
  by (induction ps) simp_all

lemma fold_put_ok:
  "\<not> failed s \<Longrightarrow> (\<And>w p. conn w p = None) \<Longrightarrow> fold (sse_put conn) ps s = s\<lparr>wire := wire s @ concat ps\<rparr>"
  by (induction ps arbitrary: s) (simp_all add: sse_put_def)

text \<open>What is on the wire after some writes is a prefix of what was to be written, all of it unless one failed.\<close>

lemma fold_put_prefix:
  "\<exists>n. wire (fold (sse_put conn) ps s) = wire s @ take n (concat ps) \<and>
     (\<not> failed (fold (sse_put conn) ps s) \<longrightarrow> n = length (concat ps))"
proof (induction ps arbitrary: s)
  case (Cons p ps)
  show ?case
  proof (cases "\<not> failed s \<and> conn (wire s) p = None")
    case True
    then have p: "sse_put conn p s = s\<lparr>wire := wire s @ p\<rparr>" by (simp add: sse_put_def)
    obtain n where "wire (fold (sse_put conn) ps (sse_put conn p s)) = wire s @ p @ take n (concat ps)"
        "\<not> failed (fold (sse_put conn) ps (sse_put conn p s)) \<longrightarrow> n = length (concat ps)"
      using Cons.IH [of "sse_put conn p s"] p by auto
    then show ?thesis by (intro exI [of _ "length p + n"]) simp
  next
    case False
    then obtain k where "failed s \<or> sse_put conn p s = s\<lparr>wire := wire s @ take k p, failed := True\<rparr>"
      by (cases "failed s"; cases "conn (wire s) p") (auto simp: sse_put_def)
    then show ?thesis
    proof
      assume "failed s"
      then show ?thesis by (intro exI [of _ 0]) simp
    next
      assume "sse_put conn p s = s\<lparr>wire := wire s @ take k p, failed := True\<rparr>"
      then show ?thesis by (intro exI [of _ "min k (length p)"]) (simp add: min_def)
    qed
  qed
qed simp

definition frame_text :: "string \<times> string \<Rightarrow> string" where
  "frame_text f = concat (frame_lines (fst f) (snd f))"

definition frames :: "connection \<Rightarrow> (string \<times> string) list \<Rightarrow> sseWriter \<Rightarrow> sseWriter" where
  "frames conn fs = fold (\<lambda>f. frame conn (fst f) (snd f)) fs"

lemma frame_failed [simp]: "failed s \<Longrightarrow> frame conn event data s = s"
  by (simp add: frame_def)

lemma frames_failed [simp]: "failed s \<Longrightarrow> frames conn fs s = s"
  by (induction fs) (simp_all add: frames_def)

lemma frames_ok:
  "(\<And>w p. conn w p = None) \<Longrightarrow> \<not> failed s \<Longrightarrow>
     wire (frames conn fs s) = wire s @ concat (map frame_text fs) \<and> \<not> failed (frames conn fs s)"
proof (induction fs arbitrary: s)
  case (Cons f fs)
  have "frame conn (fst f) (snd f) s = s\<lparr>wire := wire s @ frame_text f, flushed := length (wire s @ frame_text f)\<rparr>"
    using Cons.prems by (simp add: frame_def Let_def fold_put_ok frame_text_def)
  then show ?case
    using Cons.IH [OF Cons.prems(1), of "frame conn (fst f) (snd f) s"] Cons.prems(2) by (simp add: frames_def)
qed (simp add: frames_def)

section \<open>Reading\<close>

lemma sse_lines_line:
  "CR \<notin> set w \<Longrightarrow> LF \<notin> set w \<Longrightarrow> sse_lines cur (w @ LF # s) = (cur @ w) # sse_lines [] s"
  by (induction w arbitrary: cur) auto

lemma sse_lines_text:
  "(\<And>w. w \<in> set ws \<Longrightarrow> CR \<notin> set w \<and> LF \<notin> set w) \<Longrightarrow>
     sse_lines [] (concat (map (\<lambda>w. w @ [LF]) ws) @ s) = ws @ sse_lines [] s"
  by (induction ws) (simp_all add: sse_lines_line)

lemma sse_field_event [simp]: "sse_field (''event: '' @ v) = (''event'', v)"
  by (simp add: sse_field_def)

lemma sse_field_data [simp]: "sse_field (''data: '' @ v) = (''data'', v)"
  by (simp add: sse_field_def)

lemma sse_events_data:
  "sse_events event data (map (\<lambda>l. ''data: '' @ l) ls @ rest) = sse_events event (data @ ls) rest"
proof (induction ls arbitrary: data)
  case (Cons l ls)
  then show ?case using sse_field_data [of l] by simp
qed simp

definition plain_frame :: "string \<times> string \<Rightarrow> bool" where
  "plain_frame f \<longleftrightarrow> fst f \<noteq> [] \<and> CR \<notin> set (fst f) \<and> LF \<notin> set (fst f) \<and> CR \<notin> set (snd f)"

lemma sse_parse_frame:
  assumes "plain_frame f"
  shows "sse_parse (frame_text f @ s) = f # sse_parse s"
proof -
  obtain e d where f: "f = (e, d)" by (cases f)
  let ?ws = "(''event: '' @ e) # map (\<lambda>l. ''data: '' @ l) (Split LF d) @ [[]]"
  have shape: "frame_text f = concat (map (\<lambda>w. w @ [LF]) ?ws)"
    by (simp add: f frame_text_def frame_lines_def comp_def)
  have "CR \<notin> set w \<and> LF \<notin> set w" if "w \<in> set ?ws" for w
    using that assms by (auto simp: f plain_frame_def dest: Split_no_sep subsetD [OF Split_chars])
  then have lines: "sse_lines [] (frame_text f @ s) = ?ws @ sse_lines [] s"
    unfolding shape by (rule sse_lines_text)
  have "sse_events [] [] (?ws @ sse_lines [] s) = sse_events e (Split LF d) ([] # sse_lines [] s)"
    using sse_field_event [of e] sse_events_data [of e "[]" "Split LF d" "[] # sse_lines [] s"] by simp
  also have "\<dots> = (e, d) # sse_events [] [] (sse_lines [] s)"
    using assms by (simp add: f plain_frame_def)
  finally show ?thesis by (simp only: sse_parse_def lines) (simp only: f)
qed

lemma sse_parse_frames:
  "list_all plain_frame fs \<Longrightarrow> sse_parse (concat (map frame_text fs)) = fs"
proof (induction fs)
  case Nil
  then show ?case by (simp add: sse_parse_def)
next
  case (Cons f fs)
  then show ?case using sse_parse_frame [of f] by simp
qed

section \<open>What the client sees\<close>

text \<open>
  The stream is lossless for output without carriage returns: whatever the chunks on the two
  channels and however they interleave, on a connection that holds the client reads back exactly the
  chunks, each under its channel, in order; newlines, leading spaces, colons and empty chunks included.
\<close>

theorem sse_roundtrip:
  assumes "\<And>w p. conn w p = None" and "\<And>event data. (event, data) \<in> set fs \<Longrightarrow> event \<in> {''stdout'', ''stderr'', ''exit''}"
    and "\<And>event data. (event, data) \<in> set fs \<Longrightarrow> CR \<notin> set data"
  shows "sse_parse (wire (frames conn fs sse_new)) = fs"
proof -
  have "plain_frame f" if "f \<in> set fs" for f
    using assms(2,3) [of "fst f" "snd f"] that by (auto simp: plain_frame_def)
  then have "list_all plain_frame fs" by (simp add: list_all_iff)
  then show ?thesis using frames_ok [of conn sse_new fs] assms(1) by (simp add: sse_new_def sse_parse_frames)
qed

theorem sse_roundtrip_witness:
  "sse_parse (wire (frames (\<lambda>w p. None) [(''stdout'', ''a'' @ [LF, LF] @ '' b: c''), (''stderr'', [])] sse_new)) =
     [(''stdout'', ''a'' @ [LF, LF] @ '' b: c''), (''stderr'', [])]"
  by (rule sse_roundtrip) auto

text \<open>
  With carriage returns it is not: a command that prints one line of its choice makes the client
  read an exit event that the daemon did not send, before the real one.
\<close>

theorem sse_forged_exit:
  "sse_parse (wire (frames (\<lambda>w p. None)
     [(''stdout'', ''x'' @ [CR, CR] @ ''event: exit'' @ [CR] @ ''data: forged'' @ [CR, CR]), (''exit'', ''real'')] sse_new)) =
     [(''stdout'', ''x''), (''exit'', ''forged''), (''exit'', ''real'')]"
  by code_simp

text \<open>
  A connection that breaks cuts the stream and nothing else: the client has a prefix of what was sent,
  no later frame adds to it, and the channel writers report the error.
\<close>

lemma frame_broken:
  assumes "failed (frame conn event data s)"
  shows "\<exists>n. wire (frame conn event data s) = wire s @ take n (frame_text (event, data))"
    and "frames conn fs (frame conn event data s) = frame conn event data s"
    and "channel conn e p (frame conn event data s) = ((0, True), frame conn event data s)"
  using assms fold_put_prefix [of conn "frame_lines event data" s]
  by (auto simp: frame_def Let_def channel_def frame_text_def split: if_splits)

end
