(* ===== verification/Server.thy ===== *)
theory Server
  imports Docker_Runtime Sse
begin

text \<open>
  \<open>internal/server/server.go\<close>: the HTTP API. A request is its method, the segments of its path, the
  \<open>Authorization\<close> header, the query and the body; a handler takes the manager's state and returns a
  response with the new state. JSON decoding and the texts of errors are parameters (\<open>codec\<close>), and so is
  what the multiplexer answers by itself to a request without a route. \<open>moment\<close> is what a request meets
  while it is served: the clock, random bytes, map orders, the connection, and what others do meanwhile.
\<close>

section \<open>Exec and files on the whole manager\<close>

text \<open>
  The write path of \<open>lease.go\<close> with the manager's runtime put in: between admission and \<open>finishExec\<close>
  the runtime works, and \<open>others\<close> is what the rest of the daemon does meanwhile.
\<close>

definition mgr_call :: "('r \<Rightarrow> 'a \<times> 'r) \<Rightarrow> ('r mgr \<Rightarrow> 'r mgr) \<Rightarrow> 'r mgr \<Rightarrow> registry \<Rightarrow> registry \<times> 'a \<times> 'r mgr" where
  "mgr_call f others m rs = (let (x, m) = with_rt f (m\<lparr>runs := rs\<rparr>); m = others m in (runs m, x, m))"

definition Session_Exec where
  "Session_Exec rt others s cmd cwd env timeout m =
     (let (rs, x, m) = ExecSession_Exec (\<lambda>c. mgr_call (rt_Exec rt c cmd cwd env timeout) others m) s (runs m)
      in (x, m\<lparr>runs := rs\<rparr>))"

definition Mgr_WriteFile :: "'r runtime \<Rightarrow> ('r mgr \<Rightarrow> 'r mgr) \<Rightarrow> time \<Rightarrow> string \<Rightarrow> LeaseCredential \<Rightarrow> string \<Rightarrow>
    reader \<Rightarrow> 'r mgr \<Rightarrow> run_error option \<times> 'r mgr" where
  "Mgr_WriteFile rt others now runID c path data m =
     (case runs m runID of
        None \<Rightarrow> (Some ErrNotFound, m)
      | Some current \<Rightarrow>
          (case checkFence current c now of
             Some e \<Rightarrow> (Some e, m)
           | None \<Rightarrow>
               let rs = (runs m)(runID \<mapsto> current\<lparr>execs := execs current + 1\<rparr>);
                   (rs, err, m) = mgr_call (rt_WriteFile rt (ContainerID current) path data) others m rs
               in (err, m\<lparr>runs := finishExec runID rs\<rparr>)))"

definition Mgr_ReadFile :: "'r runtime \<Rightarrow> string \<Rightarrow> string \<Rightarrow> 'r mgr \<Rightarrow> (run_error + string) \<times> 'r mgr" where
  "Mgr_ReadFile rt runID path m =
     (case Get runID (runs m) of
        Inl e \<Rightarrow> (Inl e, m)
      | Inr current \<Rightarrow> with_rt (rt_ReadFile rt (ContainerID current) path) m)"

text \<open>It is the write path of \<open>lease.go\<close> that the fence is proved about.\<close>

lemma Mgr_WriteFile_lease:
  assumes "Mgr_WriteFile rt others now i c path data m = (e, m')"
  shows "WriteFile (\<lambda>k rs. let (rs, e, _) = mgr_call (rt_WriteFile rt k path data) others m rs in (rs, e)) now i c (runs m) =
    (runs m', e)"
  using assms by (auto simp: Mgr_WriteFile_def WriteFile_def Let_def split: option.splits prod.splits)

lemma Mgr_ReadFile_lease:
  "fst (Mgr_ReadFile rt i path m) = ReadFile (\<lambda>c. fst (rt_ReadFile rt c path (rt_state m))) i (runs m)"
  by (auto simp: Mgr_ReadFile_def ReadFile_def with_rt_def split: sum.splits prod.splits)

section \<open>Problems and responses\<close>

text \<open>The detail of a problem: a text of the server's, or an error of the manager.\<close>

datatype detail = Text string | Err run_error

record Problem =
  PType :: string
  PTitle :: string
  PStatus :: nat
  PDetail :: detail

definition problem_names :: "nat \<Rightarrow> string \<times> string" where
  "problem_names st =
     (if st = 400 then (''bad-request'', ''Bad Request'')
      else if st = 401 then (''unauthorized'', ''Unauthorized'')
      else if st = 404 then (''not-found'', ''Not Found'')
      else if st = 409 then (''conflict'', ''Conflict'')
      else (''internal'', ''Internal Server Error''))"

definition problem :: "nat \<Rightarrow> detail \<Rightarrow> Problem" where
  "problem st d = (let (suffix, title) = problem_names st
     in \<lparr>PType = ''https://neutron.dev/errors/'' @ suffix, PTitle = title, PStatus = st, PDetail = d\<rparr>)"

datatype payload =
    CreatedRun string string tier time time "WarmState option"
  | OfRuns "Run list"
  | OfImage string
  | OfLease LeaseState
  | OfWarm WarmState
  | OfManifest WarmManifest

datatype content =
    NoContent | ProblemBody Problem | HealthBody string | JSONBody string payload | Bytes string | EventStream string

record response =
  Status :: nat
  ContentType :: string
  Content :: content

definition writeProblem :: "Problem \<Rightarrow> response" where
  "writeProblem p = \<lparr>Status = PStatus p, ContentType = ''application/problem+json'', Content = ProblemBody p\<rparr>"

definition error_status :: "run_error \<Rightarrow> nat" where
  "error_status e =
     (case e of ErrNotFound \<Rightarrow> 404 | ErrBadRequest _ \<Rightarrow> 400 | ErrLeaseHeld \<Rightarrow> 409 | ErrLeaseSuperseded \<Rightarrow> 409
      | ErrBusy \<Rightarrow> 409 | ErrOther _ \<Rightarrow> 500)"

definition writeError :: "run_error \<Rightarrow> response" where
  "writeError e = writeProblem (problem (error_status e) (Err e))"

definition no_content :: response where
  "no_content = \<lparr>Status = 204, ContentType = [], Content = NoContent\<rparr>"

section \<open>The server and its requests\<close>

record Server =
  Token :: string
  Version :: string
  ServerName :: string

definition writeJSON :: "Server \<Rightarrow> nat \<Rightarrow> payload \<Rightarrow> response" where
  "writeJSON s st body = \<lparr>Status = st, ContentType = ''application/json'', Content = JSONBody (ServerName s) body\<rparr>"

definition bad_body :: "string \<Rightarrow> response" where
  "bad_body t = writeProblem (problem 400 (Text t))"

datatype meth = GET | HEAD | POST | PUT | DELETE

record http_req =
  Method :: meth
  Segments :: "string list"
  Authorization :: string
  Query :: "string \<Rightarrow> string"     \<comment> \<open>the empty string when absent\<close>
  ReqBody :: string

text \<open>What \<open>json.Decode\<close> makes of a body.\<close>

datatype 'a decoded = EOF | BadJSON | Decoded 'a

record execRequest =
  ExCmd :: string
  ExCwd :: string
  ExTimeoutSec :: int
  ExEnv :: "(string \<times> string) list"
  ExOwner :: string
  ExGeneration :: u64

record leaseRequest =
  LrOwner :: string
  LrGeneration :: u64
  LrTTLSec :: int

record codec =
  dec_create :: "string \<Rightarrow> CreateRequest decoded"
  dec_exec :: "string \<Rightarrow> execRequest decoded"
  dec_lease :: "string \<Rightarrow> leaseRequest decoded"
  dec_repo :: "string \<Rightarrow> string decoded"
  err_string :: "run_error \<Rightarrow> string"
  mux_answer :: "meth \<Rightarrow> string list \<Rightarrow> response"

record 'r moment =
  m_now :: time
  m_later :: time
  m_random :: "8 word list option"
  m_listener :: "string option"
  m_order :: "string list"
  m_booting :: "nat \<Rightarrow> store \<Rightarrow> store"
  m_committing :: "store \<Rightarrow> store"
  m_others :: "'r mgr \<Rightarrow> 'r mgr"
  m_flusher :: bool
  m_conn :: connection

section \<open>Handlers\<close>

definition handleHealth :: "Server \<Rightarrow> response" where
  "handleHealth s = \<lparr>Status = 200, ContentType = ''application/json'', Content = HealthBody (Version s)\<rparr>"

definition handleCreate :: "codec \<Rightarrow> lib \<Rightarrow> 'r runtime \<Rightarrow> 'r moment \<Rightarrow> Server \<Rightarrow> http_req \<Rightarrow> 'r mgr \<Rightarrow> response \<times> 'r mgr" where
  "handleCreate cd l rt w s r m =
     (case dec_create cd (ReqBody r) of
        Decoded req \<Rightarrow>
          (case Create l rt (m_booting w) (m_now w) (m_random w) (m_listener w) req m of
             (Inl e, m) \<Rightarrow> (writeError e, m)
           | (Inr c, m) \<Rightarrow>
               (writeJSON s 201 (CreatedRun (ID c) (RunImage c) (RunNetwork c) (CreatedAt c) (ExpiresAt c) (Warm c)), m))
      | _ \<Rightarrow> (bad_body ''Body must be JSON.'', m))"

definition handleList :: "'r moment \<Rightarrow> Server \<Rightarrow> 'r mgr \<Rightarrow> response \<times> 'r mgr" where
  "handleList w s m = (writeJSON s 200 (OfRuns (List (m_order w) (runs m))), m)"

definition handleDestroy :: "lib \<Rightarrow> 'r runtime \<Rightarrow> 'r moment \<Rightarrow> string \<Rightarrow> 'r mgr \<Rightarrow> response \<times> 'r mgr" where
  "handleDestroy l rt w i m =
     (case Destroy l rt (m_others w) i m of (Some e, m) \<Rightarrow> (writeError e, m) | (None, m) \<Rightarrow> (no_content, m))"

definition handleSnapshot :: "lib \<Rightarrow> 'r runtime \<Rightarrow> 'r moment \<Rightarrow> Server \<Rightarrow> string \<Rightarrow> 'r mgr \<Rightarrow> response \<times> 'r mgr" where
  "handleSnapshot l rt w s i m =
     (case Snapshot l rt (m_now w) (m_random w) i m of
        (Inl e, m) \<Rightarrow> (writeError e, m)
      | (Inr ref, m) \<Rightarrow> (writeJSON s 201 (OfImage ref), m))"

definition handleDeleteSnapshot :: "'r runtime \<Rightarrow> http_req \<Rightarrow> 'r mgr \<Rightarrow> response \<times> 'r mgr" where
  "handleDeleteSnapshot rt r m =
     (if Query r ''image'' = [] then (bad_body ''Provide ?image=<snapshot ref>.'', m)
      else case DeleteSnapshot rt (Query r ''image'') m of
             (Some e, m) \<Rightarrow> (writeError e, m)
           | (None, m) \<Rightarrow> (no_content, m))"

definition handleLeaseAcquire :: "codec \<Rightarrow> 'r moment \<Rightarrow> Server \<Rightarrow> string \<Rightarrow> http_req \<Rightarrow> 'r mgr \<Rightarrow> response \<times> 'r mgr" where
  "handleLeaseAcquire cd w s i r m =
     (case dec_lease cd (ReqBody r) of
        Decoded req \<Rightarrow>
          (let (rs, x) = AcquireLease (m_now w) i (LrOwner req) (seconds (LrTTLSec req)) (runs m);
               m = m\<lparr>runs := rs\<rparr>
           in case x of
                Inl e \<Rightarrow> (writeError e, m)
              | Inr (generation, expiresAt) \<Rightarrow>
                  (writeJSON s 200 (OfLease \<lparr>Holder = LrOwner req, Generation = generation, LeaseExpiresAt = expiresAt\<rparr>), m))
      | _ \<Rightarrow> (bad_body ''Body must be JSON.'', m))"

definition handleLeaseRenew :: "codec \<Rightarrow> 'r moment \<Rightarrow> Server \<Rightarrow> string \<Rightarrow> http_req \<Rightarrow> 'r mgr \<Rightarrow> response \<times> 'r mgr" where
  "handleLeaseRenew cd w s i r m =
     (case dec_lease cd (ReqBody r) of
        Decoded req \<Rightarrow>
          (let (rs, x) = RenewLease (m_now w) (m_later w) i (LrOwner req) (LrGeneration req) (seconds (LrTTLSec req)) (runs m);
               m = m\<lparr>runs := rs\<rparr>
           in case x of
                Inl e \<Rightarrow> (writeError e, m)
              | Inr expiresAt \<Rightarrow>
                  (writeJSON s 200 (OfLease \<lparr>Holder = LrOwner req, Generation = LrGeneration req, LeaseExpiresAt = expiresAt\<rparr>), m))
      | _ \<Rightarrow> (bad_body ''Body must be JSON.'', m))"

text \<open>An empty body is accepted here, as the zero request.\<close>

definition handleLeaseRelease :: "codec \<Rightarrow> string \<Rightarrow> http_req \<Rightarrow> 'r mgr \<Rightarrow> response \<times> 'r mgr" where
  "handleLeaseRelease cd i r m =
     (let release = (\<lambda>req.
        let (rs, x) = ReleaseLease i (LrOwner req) (LrGeneration req) (runs m); m = m\<lparr>runs := rs\<rparr>
        in case x of Inl e \<Rightarrow> (writeError e, m) | Inr _ \<Rightarrow> (no_content, m))
      in case dec_lease cd (ReqBody r) of
           Decoded req \<Rightarrow> release req
         | EOF \<Rightarrow> release \<lparr>LrOwner = [], LrGeneration = 0, LrTTLSec = 0\<rparr>
         | BadJSON \<Rightarrow> (bad_body ''Body must be JSON.'', m))"

definition leaseCredFromQuery :: "http_req \<Rightarrow> string + LeaseCredential" where
  "leaseCredFromQuery r =
     (if Query r ''generation'' = [] then Inr \<lparr>Owner = Query r ''owner'', CredGeneration = 0\<rparr>
      else case ParseUint (Query r ''generation'') of
             None \<Rightarrow> Inl (''generation must be a number, got '' @ Query r ''generation'')
           | Some g \<Rightarrow> Inr \<lparr>Owner = Query r ''owner'', CredGeneration = g\<rparr>)"

definition handleWarmCommit :: "codec \<Rightarrow> lib \<Rightarrow> 'r moment \<Rightarrow> Server \<Rightarrow> string \<Rightarrow> http_req \<Rightarrow> 'r mgr \<Rightarrow> response \<times> 'r mgr" where
  "handleWarmCommit cd l w s i r m =
     (let commit = (\<lambda>repo.
        case CommitWarm l (m_committing w) (m_others w) (m_now w) (m_random w) i repo m of
          (Inl e, m) \<Rightarrow> (writeError e, m)
        | (Inr state, m) \<Rightarrow> (writeJSON s 201 (OfWarm state), m))
      in case dec_repo cd (ReqBody r) of
           Decoded repo \<Rightarrow> commit repo
         | EOF \<Rightarrow> commit []
         | BadJSON \<Rightarrow> (bad_body ''Body must be JSON.'', m))"

definition handleWarmInfo :: "lib \<Rightarrow> Server \<Rightarrow> string \<Rightarrow> 'r mgr \<Rightarrow> response \<times> 'r mgr" where
  "handleWarmInfo l s i m =
     (case WarmHash l i m of (Inl e, m) \<Rightarrow> (writeError e, m) | (Inr state, m) \<Rightarrow> (writeJSON s 200 (OfWarm state), m))"

definition handleWarmGet :: "lib \<Rightarrow> Server \<Rightarrow> string \<Rightarrow> 'r mgr \<Rightarrow> response \<times> 'r mgr" where
  "handleWarmGet l s repo m =
     (case Mgr_WarmManifest l repo m of (Inl e, m) \<Rightarrow> (writeError e, m) | (Inr mf, m) \<Rightarrow> (writeJSON s 200 (OfManifest mf), m))"

definition handleWarmDrop :: "lib \<Rightarrow> string \<Rightarrow> 'r mgr \<Rightarrow> response \<times> 'r mgr" where
  "handleWarmDrop l repo m =
     (case DropWarm l repo m of (Some e, m) \<Rightarrow> (writeError e, m) | (None, m) \<Rightarrow> (no_content, m))"

subsection \<open>Exec\<close>

definition exec_timeout :: "int \<Rightarrow> duration" where
  "exec_timeout n = (if n > 0 then seconds n else 120 * second)"

definition exit_data :: "int \<Rightarrow> bool \<Rightarrow> string" where
  "exit_data code timedOut =
     ''{'' @ [CHR 0x22] @ ''exitCode'' @ [CHR 0x22] @ '':'' @ show_int code @ '','' @ [CHR 0x22] @ ''timedOut'' @
       [CHR 0x22] @ '':'' @ (if timedOut then ''true'' else ''false'') @ ''}''"

text \<open>The frames of an exec: the output as it came, the error if there was one, the exit.\<close>

definition exec_frames :: "codec \<Rightarrow> (string \<times> string) list \<Rightarrow> int \<Rightarrow> bool \<Rightarrow> run_error option \<Rightarrow> (string \<times> string) list" where
  "exec_frames cd outs code timedOut err =
     outs @ (case err of None \<Rightarrow> [] | Some e \<Rightarrow> [(''stderr'', ''sandbox: '' @ err_string cd e)]) @
     [(''exit'', exit_data (if err = None then code else -1) timedOut)]"

definition exec_cwd :: "string \<Rightarrow> run_error + string" where
  "exec_cwd cwd = (if cwd = [] then Inr [] else ValidateWorkPath cwd)"

text \<open>
  Everything up to \<open>BeginExec\<close> only reads, and \<open>BeginExec\<close> looks the run up again; what others do before
  it is as if done before the request.
\<close>

definition handleExec :: "codec \<Rightarrow> 'r runtime \<Rightarrow> 'r moment \<Rightarrow> string \<Rightarrow> http_req \<Rightarrow> 'r mgr \<Rightarrow> response \<times> 'r mgr" where
  "handleExec cd rt w i r m =
     (case Get i (runs m) of
        Inl e \<Rightarrow> (writeError e, m)
      | Inr current \<Rightarrow>
          (case dec_exec cd (ReqBody r) of
             Decoded req \<Rightarrow>
               if TrimSpace (ExCmd req) = [] then (bad_body ''Body must be JSON with a non-empty `cmd`.'', m)
               else (case exec_cwd (ExCwd req) of
                 Inl e \<Rightarrow> (writeError e, m)
               | Inr cwd \<Rightarrow>
                   (case ValidateExecEnv (ExEnv req) of
                      Inl e \<Rightarrow> (writeError e, m)
                    | Inr _ \<Rightarrow>
                        if \<not> m_flusher w then (writeProblem (problem 500 (Text ''Streaming unsupported.'')), m)
                        else
                          (case BeginExec (m_now w) (ID current) \<lparr>Owner = ExOwner req, CredGeneration = ExGeneration req\<rparr> (runs m) of
                             (rs, Inl e) \<Rightarrow> (writeError e, m\<lparr>runs := rs\<rparr>)
                           | (rs, Inr session) \<Rightarrow>
                               let ((outs, code, timedOut, err), m) =
                                     Session_Exec rt (m_others w) session (ExCmd req) cwd (ExEnv req)
                                       (exec_timeout (ExTimeoutSec req)) (m\<lparr>runs := rs\<rparr>)
                               in (\<lparr>Status = 200, ContentType = ''text/event-stream'',
                                    Content = EventStream (wire (frames (m_conn w) (exec_frames cd outs code timedOut err) sse_new))\<rparr>, m))))
           | _ \<Rightarrow> (bad_body ''Body must be JSON with a non-empty `cmd`.'', m)))"

subsection \<open>Files\<close>

definition maxUpload :: nat where "maxUpload = 67108864"

definition MaxBytesReader :: "nat \<Rightarrow> string \<Rightarrow> reader" where
  "MaxBytesReader n data = (if length data \<le> n then (data, False) else (take n data, True))"

definition handlePutFile :: "'r runtime \<Rightarrow> 'r moment \<Rightarrow> string \<Rightarrow> string \<Rightarrow> http_req \<Rightarrow> 'r mgr \<Rightarrow> response \<times> 'r mgr" where
  "handlePutFile rt w i p r m =
     (case Get i (runs m) of
        Inl e \<Rightarrow> (writeError e, m)
      | Inr current \<Rightarrow>
          (case ValidateWorkPath p of
             Inl e \<Rightarrow> (writeError e, m)
           | Inr path \<Rightarrow>
               (case leaseCredFromQuery r of
                  Inl t \<Rightarrow> (bad_body t, m)
                | Inr c \<Rightarrow>
                    (case Mgr_WriteFile rt (m_others w) (m_now w) (ID current) c path (MaxBytesReader maxUpload (ReqBody r)) m of
                       (Some e, m) \<Rightarrow> (writeError e, m)
                     | (None, m) \<Rightarrow> (no_content, m)))))"

definition handleGetFile :: "'r runtime \<Rightarrow> string \<Rightarrow> string \<Rightarrow> 'r mgr \<Rightarrow> response \<times> 'r mgr" where
  "handleGetFile rt i p m =
     (case Get i (runs m) of
        Inl e \<Rightarrow> (writeError e, m)
      | Inr current \<Rightarrow>
          (case ValidateWorkPath p of
             Inl e \<Rightarrow> (writeError e, m)
           | Inr path \<Rightarrow>
               (case Mgr_ReadFile rt (ID current) path m of
                  (Inl _, m) \<Rightarrow> (writeProblem (problem 404 (Text (''No such file: '' @ p))), m)
                | (Inr data, m) \<Rightarrow> (\<lparr>Status = 200, ContentType = ''application/octet-stream'', Content = Bytes data\<rparr>, m))))"

section \<open>Routes and the token\<close>

datatype route =
    RHealth | RCreate | RList | RDestroy string | RExec string | RSnapshot string | RLease string | RRenew string
  | RRelease string | RDeleteSnapshot | RWarmCommit string | RWarmInfo string | RWarmGet string | RWarmDrop string
  | RPutFile string string | RGetFile string string

text \<open>
  A pattern with the method \<open>GET\<close> also takes \<open>HEAD\<close>; a wildcard takes one segment that is not empty, \<open>{x...}\<close> the rest of
  the path. A path with an empty segment before its end is not routed: the multiplexer redirects it.
\<close>

definition run_route :: "meth \<Rightarrow> string \<Rightarrow> string list \<Rightarrow> route option" where
  "run_route me i rest =
     (case rest of
        [] \<Rightarrow> if me = DELETE then Some (RDestroy i) else None
      | x # below \<Rightarrow>
          if x = ''files'' \<and> below \<noteq> [] then
            (if me = PUT then Some (RPutFile i (Join ''/'' below))
             else if me = GET \<or> me = HEAD then Some (RGetFile i (Join ''/'' below)) else None)
          else if me = POST \<and> rest = [''exec''] then Some (RExec i)
          else if me = POST \<and> rest = [''snapshot''] then Some (RSnapshot i)
          else if me = POST \<and> rest = [''lease''] then Some (RLease i)
          else if me = POST \<and> rest = [''lease'', ''renew''] then Some (RRenew i)
          else if me = POST \<and> rest = [''lease'', ''release''] then Some (RRelease i)
          else if me = POST \<and> rest = [''warm-commit''] then Some (RWarmCommit i)
          else if (me = GET \<or> me = HEAD) \<and> rest = [''warm''] then Some (RWarmInfo i)
          else None)"

definition route :: "meth \<Rightarrow> string list \<Rightarrow> route option" where
  "route me segs =
     (if [] \<in> set (butlast segs) then None
      else if segs = [''health''] then (if me = GET \<or> me = HEAD then Some RHealth else None)
      else if segs = [''v1'', ''runs''] then
        (if me = POST then Some RCreate else if me = GET \<or> me = HEAD then Some RList else None)
      else if segs = [''v1'', ''snapshots''] then (if me = DELETE then Some RDeleteSnapshot else None)
      else case segs of
             v # kind # x # rest \<Rightarrow>
               if v \<noteq> ''v1'' then None
               else if kind = ''runs'' \<and> x \<noteq> [] then run_route me x rest
               else if kind = ''warmcache'' then
                 (if me = GET \<or> me = HEAD then Some (RWarmGet (Join ''/'' (x # rest)))
                  else if me = DELETE then Some (RWarmDrop (Join ''/'' (x # rest))) else None)
               else None
           | _ \<Rightarrow> None)"

definition authorized :: "Server \<Rightarrow> http_req \<Rightarrow> bool" where
  "authorized s r = (let (token, ok) = CutPrefix (Authorization r) ''Bearer '' in ok \<and> token = Token s)"

definition auth :: "Server \<Rightarrow> http_req \<Rightarrow> ('r mgr \<Rightarrow> response \<times> 'r mgr) \<Rightarrow> 'r mgr \<Rightarrow> response \<times> 'r mgr" where
  "auth s r next m =
     (if \<not> authorized s r then (writeProblem (problem 401 (Text ''Missing or invalid bearer token.'')), m) else next m)"

definition Handler :: "codec \<Rightarrow> lib \<Rightarrow> 'r runtime \<Rightarrow> 'r moment \<Rightarrow> Server \<Rightarrow> http_req \<Rightarrow> 'r mgr \<Rightarrow> response \<times> 'r mgr" where
  "Handler cd l rt w s r m =
     (case route (Method r) (Segments r) of
        None \<Rightarrow> (mux_answer cd (Method r) (Segments r), m)
      | Some RHealth \<Rightarrow> (handleHealth s, m)
      | Some RCreate \<Rightarrow> auth s r (handleCreate cd l rt w s r) m
      | Some RList \<Rightarrow> auth s r (handleList w s) m
      | Some (RDestroy i) \<Rightarrow> auth s r (handleDestroy l rt w i) m
      | Some (RExec i) \<Rightarrow> auth s r (handleExec cd rt w i r) m
      | Some (RSnapshot i) \<Rightarrow> auth s r (handleSnapshot l rt w s i) m
      | Some (RLease i) \<Rightarrow> auth s r (handleLeaseAcquire cd w s i r) m
      | Some (RRenew i) \<Rightarrow> auth s r (handleLeaseRenew cd w s i r) m
      | Some (RRelease i) \<Rightarrow> auth s r (handleLeaseRelease cd i r) m
      | Some RDeleteSnapshot \<Rightarrow> auth s r (handleDeleteSnapshot rt r) m
      | Some (RWarmCommit i) \<Rightarrow> auth s r (handleWarmCommit cd l w s i r) m
      | Some (RWarmInfo i) \<Rightarrow> auth s r (handleWarmInfo l s i) m
      | Some (RWarmGet repo) \<Rightarrow> auth s r (handleWarmGet l s repo) m
      | Some (RWarmDrop repo) \<Rightarrow> auth s r (handleWarmDrop l repo) m
      | Some (RPutFile i p) \<Rightarrow> auth s r (handlePutFile rt w i p r) m
      | Some (RGetFile i p) \<Rightarrow> auth s r (handleGetFile rt i p) m)"

end
