(* ===== verification/Daemon.thy ===== *)
theory Daemon
  imports Server
begin

text \<open>
  The life of the daemon: \<open>serve\<close> of \<open>main.go\<close> from the configuration to the first request, the bearer
  token of \<open>LoadOrMintToken\<close>, and \<open>shutdown\<close> of \<open>server.go\<close>. Flag parsing, signals and the listener of the
  API are left out; the environment is a function, and a token file is its content with its mode.
\<close>

section \<open>The token\<close>

type_synonym host_files = "string \<rightharpoonup> string \<times> nat"

definition dirOf :: "string \<Rightarrow> string" where
  "dirOf path =
     (case LastIndexByte path (CHR ''/'') of
        None \<Rightarrow> ''.''
      | Some i \<Rightarrow> if i = 0 then ''.'' else take i path)"

text \<open>
  \<open>MkdirAll\<close> and \<open>WriteFile\<close> succeed or fail as \<open>mkdir\<close> and \<open>writable\<close> say. The mode (0600 is 384) is given to a
  file that is made; one that exists keeps its own. (\<open>NewULID\<close> panics without random bytes.)
\<close>

definition LoadOrMintToken :: "(string \<Rightarrow> bool) \<Rightarrow> (string \<Rightarrow> bool) \<Rightarrow> time \<Rightarrow> time \<Rightarrow> 8 word list option \<Rightarrow>
    8 word list option \<Rightarrow> string \<Rightarrow> host_files \<Rightarrow> (string + string) \<times> host_files" where
  "LoadOrMintToken mkdir writable now now' rnd rnd' path h =
     (if (case h path of None \<Rightarrow> False | Some (data, _) \<Rightarrow> length (TrimSpace data) \<ge> 32)
      then (Inr (TrimSpace (fst (the (h path)))), h)
      else case (NewULID now rnd, NewULID now' rnd') of
             (Inr a, Inr b) \<Rightarrow>
               if \<not> mkdir (dirOf path) then (Inl ''mkdir'', h)
               else if \<not> writable path then (Inl ''write'', h)
               else (Inr (a @ b), h(path \<mapsto> (a @ b @ [LF], case h path of None \<Rightarrow> 384 | Some (_, mode) \<Rightarrow> mode)))
           | _ \<Rightarrow> (Inl ''panic'', h))"

section \<open>Configuration\<close>

definition envOr :: "(string \<Rightarrow> string option) \<Rightarrow> string \<Rightarrow> string \<Rightarrow> string" where
  "envOr env name fallback = (case env name of Some v \<Rightarrow> v | None \<Rightarrow> fallback)"

text \<open>\<open>parse\<close> is \<open>strconv.ParseFloat\<close> on finite numbers.\<close>

definition envFloat :: "(string \<Rightarrow> rat option) \<Rightarrow> (string \<Rightarrow> string option) \<Rightarrow> string \<Rightarrow> rat \<Rightarrow> rat" where
  "envFloat parse env name fallback =
     (if envOr env name [] \<noteq> [] then (case parse (envOr env name []) of Some f \<Rightarrow> f | None \<Rightarrow> fallback) else fallback)"

text \<open>Conversion of a float to an integer drops the fraction.\<close>

definition float_int :: "rat \<Rightarrow> int" where
  "float_int x = (if x < 0 then ceiling x else floor x)"

record options =
  opt_egress_allow :: string
  opt_token_file :: string
  opt_proxy_port :: string
  opt_cache_root :: string
  opt_cache_max_gb :: rat

text \<open>The flags as they stand when the command line gives none.\<close>

definition default_options :: "(string \<Rightarrow> rat option) \<Rightarrow> (string \<Rightarrow> string option) \<Rightarrow> options" where
  "default_options parse env = \<lparr>opt_egress_allow = envOr env ''SBX_EGRESS_ALLOW'' [],
     opt_token_file = ''/deployments/sandbox/token'', opt_proxy_port = ''7443'',
     opt_cache_root = envOr env ''SBX_CACHE_ROOT'' ''/var/lib/teploy-sandbox/cache'',
     opt_cache_max_gb = envFloat parse env ''SBX_CACHE_MAX_GB'' 20\<rparr>"

definition docker_settings :: "(string \<Rightarrow> rat option) \<Rightarrow> (string \<Rightarrow> string option) \<Rightarrow> DockerRuntime" where
  "docker_settings parse env = \<lparr>OCIRuntime = envOr env ''SBX_RUNTIME'' [],
     ShmMB = float_int (envFloat parse env ''SBX_SHM_MB'' 512), Bin = []\<rparr>"

section \<open>Start\<close>

definition NewManager :: "'r \<Rightarrow> 'r mgr" where
  "NewManager s = \<lparr>rt_state = s, runs = Map.empty, cache = None, egress = None, proxy_url = [], history = []\<rparr>"

definition NewCacheStore :: "string \<Rightarrow> int \<Rightarrow> disk \<Rightarrow> store" where
  "NewCacheStore dir maxBytes d =
     \<lparr>Root = filter (\<lambda>seg. seg \<noteq> []) (Split (CHR ''/'') dir), MaxBytes = maxBytes, inUse = [], disk = d\<rparr>"

definition new_pool :: "allowlist \<Rightarrow> string \<Rightarrow> pool" where
  "new_pool base bind = \<lparr>Base = base, Bind = bind, shared = [], perRun = Map.empty, perRunPx = Map.empty,
     sharedSrv = None, sharedPx = None, listeners = {}, conns = {}\<rparr>"

text \<open>The egress door: bridge, gateway, shared proxy. Each failure leaves the daemon without a door.\<close>

definition start_egress :: "daemon \<Rightarrow> (string \<Rightarrow> (string \<times> string) list list option) \<Rightarrow> (string \<Rightarrow> string option) \<Rightarrow>
    string \<Rightarrow> allowlist \<Rightarrow> event list \<Rightarrow> (pool option \<times> string) \<times> event list" where
  "start_egress k decode listen port deployAllow tr =
     (case EnsureEgressNetwork k tr of
        (Some e, tr) \<Rightarrow> ((None, []), tr)
      | (None, tr) \<Rightarrow>
          (case EgressGateway decode k tr of
             (Inl e, tr) \<Rightarrow> ((None, []), tr)
           | (Inr gateway, tr) \<Rightarrow>
               (case Pool_Start port (listen (JoinHostPort gateway port)) (new_pool (DefaultAllowlist @ deployAllow) gateway) of
                  (p, Inl e) \<Rightarrow> ((None, []), tr)
                | (p, Inr url) \<Rightarrow> ((Some p, url), tr))))"

datatype serve_error = BadEgress entry_error | BadToken string

record boot_env =
  be_unicode :: "string \<Rightarrow> string"
  be_docker :: daemon
  be_decode :: "string \<Rightarrow> (string \<times> string) list list option"
  be_listen :: "string \<Rightarrow> string option"
  be_token :: "string \<Rightarrow> host_files \<Rightarrow> (string + string) \<times> host_files"
  be_disk :: disk
  be_hostname :: string
  be_version :: string

definition serve :: "boot_env \<Rightarrow> options \<Rightarrow> host_files \<Rightarrow> (serve_error + Server \<times> event list mgr) \<times> host_files" where
  "serve b opts h =
     (case ValidateAllowlist (be_unicode b) (ParseAllowlist (be_unicode b) (opt_egress_allow opts)) of
        Inl e \<Rightarrow> (Inl (BadEgress e), h)
      | Inr deployAllow \<Rightarrow>
          (case be_token b (opt_token_file opts) h of
             (Inl e, h) \<Rightarrow> (Inl (BadToken e), h)
           | (Inr token, h) \<Rightarrow>
               let ((p, url), tr) = start_egress (be_docker b) (be_decode b) (be_listen b) (opt_proxy_port opts) deployAllow [];
                   (_, tr) = SweepOrphans (be_docker b) tr;
                   m = (NewManager tr)\<lparr>proxy_url := url, egress := p\<rparr>;
                   m = (if opt_cache_root opts = [] then m
                        else m\<lparr>cache := Some (NewCacheStore (opt_cache_root opts)
                               (float_int (opt_cache_max_gb opts * 2 ^ 30)) (be_disk b))\<rparr>)
               in (Inr (\<lparr>Token = token, Version = be_version b, ServerName = be_hostname b\<rparr>, m), h)))"

section \<open>Shutdown\<close>

text \<open>After the drain: every run is destroyed, and what is still tracked is counted.\<close>

definition shutdown :: "lib \<Rightarrow> 'r runtime \<Rightarrow> string list \<Rightarrow> (registry \<Rightarrow> string list) \<Rightarrow> 'r mgr \<Rightarrow> nat \<times> 'r mgr" where
  "shutdown l rt ids order m =
     (let m = DestroyAll l rt ids m in (length (List (order (runs m)) (runs m)), m))"

end
