(* ===== verification/Server_Correct.thy ===== *)
theory Server_Correct
  imports Server
begin

text \<open>
  What the HTTP API promises: the token gate in front of every route, the lease fence in front of exec
  and uploads, what an exec streams back, and the bounds of its time limit.
\<close>

section \<open>The token gate\<close>

lemma authorized_iff: "authorized s r \<longleftrightarrow> Authorization r = ''Bearer '' @ Token s"
  by (auto simp: authorized_def CutPrefix_def HasPrefix_iff Let_def)

text \<open>
  C4. Without the token nothing happens and nothing is told: a request whose \<open>Authorization\<close> header is not
  exactly the bearer token leaves the daemon as it was, and its answer is the same in every state of the
  daemon: 401, or the health of the daemon, or the answer of the multiplexer to a path without a route.
\<close>

theorem auth_gate:
  assumes "Authorization r \<noteq> ''Bearer '' @ Token s"
  shows "\<exists>resp. (\<forall>m. Handler cd l rt w s r m = (resp, m)) \<and>
    (if route (Method r) (Segments r) = Some RHealth then resp = handleHealth s
     else if route (Method r) (Segments r) = None then resp = mux_answer cd (Method r) (Segments r)
     else Status resp = 401)"
proof -
  have no: "auth s r h m = (writeProblem (problem 401 (Text ''Missing or invalid bearer token.'')), m)" for h m
    using assms by (simp add: auth_def authorized_iff)
  have "Status (writeProblem (problem 401 d)) = 401" for d
    by (simp add: writeProblem_def problem_def problem_names_def)
  then show ?thesis
    by (cases "route (Method r) (Segments r)"; cases "the (route (Method r) (Segments r))")
      (auto simp: Handler_def no)
qed

definition demo_codec :: codec where
  "demo_codec = \<lparr>dec_create = (\<lambda>b. BadJSON),
     dec_exec = (\<lambda>b. Decoded \<lparr>ExCmd = b, ExCwd = [], ExTimeoutSec = 5, ExEnv = [], ExOwner = [], ExGeneration = 0\<rparr>),
     dec_lease = (\<lambda>b. BadJSON), dec_repo = (\<lambda>b. EOF), err_string = (\<lambda>e. ''error''),
     mux_answer = (\<lambda>me segs. \<lparr>Status = 404, ContentType = [], Content = NoContent\<rparr>)\<rparr>"

definition demo_server :: Server where
  "demo_server = \<lparr>Token = ''t'', Version = ''dev'', ServerName = ''box''\<rparr>"

definition demo_moment :: "'r moment" where
  "demo_moment = \<lparr>m_now = 0, m_later = 0, m_random = None, m_listener = None, m_order = [], m_booting = (\<lambda>k c. c),
     m_committing = (\<lambda>c. c), m_others = (\<lambda>m. m), m_flusher = True, m_conn = (\<lambda>w p. None)\<rparr>"

definition demo_http :: "string \<Rightarrow> string \<Rightarrow> http_req" where
  "demo_http token body = \<lparr>Method = DELETE, Segments = [''v1'', ''runs'', ''r''], Authorization = ''Bearer '' @ token,
     Query = (\<lambda>k. []), ReqBody = body\<rparr>"

theorem auth_gate_witness:
  "snd (Handler demo_codec demo_json (demo_rt (Inr []) None) demo_moment demo_server (demo_http ''T'' [])
     (demo_mgr [''r'' \<mapsto> warm_run])) = demo_mgr [''r'' \<mapsto> warm_run]"
proof -
  have "Authorization (demo_http ''T'' []) \<noteq> ''Bearer '' @ Token demo_server"
    by (simp add: demo_http_def demo_server_def)
  from auth_gate [OF this, of demo_codec demo_json "demo_rt (Inr []) None" demo_moment] show ?thesis by force
qed

section \<open>The fence\<close>

text \<open>What an exec went through before it was admitted.\<close>

definition exec_admitted :: "codec \<Rightarrow> 'r moment \<Rightarrow> http_req \<Rightarrow> Run \<Rightarrow> execRequest \<Rightarrow> string \<Rightarrow> bool" where
  "exec_admitted cd w r run req cwd \<longleftrightarrow> dec_exec cd (ReqBody r) = Decoded req \<and> TrimSpace (ExCmd req) \<noteq> [] \<and>
     exec_cwd (ExCwd req) = Inr cwd \<and> ValidateExecEnv (ExEnv req) = Inr () \<and> m_flusher w \<and>
     checkFence run (cred (ExOwner req) (ExGeneration req)) (m_now w) = None"

definition counted :: "string \<Rightarrow> Run \<Rightarrow> 'r mgr \<Rightarrow> 'r mgr" where
  "counted i run m = m\<lparr>runs := (runs m)(i \<mapsto> run\<lparr>execs := execs run + 1\<rparr>)\<rparr>"

lemma problem_Status [simp]: "Status (writeProblem (problem st d)) = st"
  by (simp add: writeProblem_def problem_def split: prod.splits)

lemma writeError_Status: "Status (writeError e) \<in> {400, 404, 409, 500}"
  by (simp add: writeError_def error_status_def split: run_error.splits)

lemma bad_body_Status [simp]: "Status (bad_body t) = 400"
  by (simp add: bad_body_def)

lemma BeginExec_cases:
  assumes "runs m i = Some run"
  shows "BeginExec now i c (runs m) =
    (case checkFence run c now of
       Some e \<Rightarrow> (runs m, Inl e)
     | None \<Rightarrow> (runs (counted i run m), Inr \<lparr>sess_run = i, sess_container = ContainerID run\<rparr>))"
  using assms by (simp add: BeginExec_def counted_def split: option.splits)

lemma counted_runs: "m\<lparr>runs := runs (counted i run m)\<rparr> = counted i run m"
  by (simp add: counted_def)

lemma handleExecE:
  assumes "handleExec cd rt w i r m = (resp, m')" and "runs m i = Some run" and "ID run = i"
  obtains (refused) "m' = m" and "Status resp \<in> {400, 404, 409, 500}"
  | (ran) req cwd outs code timedOut err where "exec_admitted cd w r run req cwd"
      and "Session_Exec rt (m_others w) \<lparr>sess_run = i, sess_container = ContainerID run\<rparr> (ExCmd req) cwd (ExEnv req)
        (exec_timeout (ExTimeoutSec req)) (counted i run m) = ((outs, code, timedOut, err), m')"
      and "Status resp = 200"
      and "Content resp = EventStream (wire (frames (m_conn w) (exec_frames cd outs code timedOut err) sse_new))"
proof (cases "\<exists>req cwd. exec_admitted cd w r run req cwd")
  case True
  then obtain req cwd where a: "exec_admitted cd w r run req cwd" by blast
  obtain outs code timedOut err m2 where s:
    "Session_Exec rt (m_others w) \<lparr>sess_run = i, sess_container = ContainerID run\<rparr> (ExCmd req) cwd (ExEnv req)
        (exec_timeout (ExTimeoutSec req)) (counted i run m) = ((outs, code, timedOut, err), m2)"
    by (metis prod_cases4 surj_pair)
  have "resp = \<lparr>Status = 200, ContentType = ''text/event-stream'',
        Content = EventStream (wire (frames (m_conn w) (exec_frames cd outs code timedOut err) sse_new))\<rparr> \<and> m' = m2"
    using assms a s by (simp add: handleExec_def Get_def exec_admitted_def BeginExec_cases counted_runs)
  then show thesis using ran [OF a] s by simp
next
  case False
  have "m' = m \<and> Status resp \<in> {400, 404, 409, 500}"
  proof (cases "dec_exec cd (ReqBody r)")
    case (Decoded req)
    show ?thesis
    proof (cases "\<exists>cwd. exec_cwd (ExCwd req) = Inr cwd \<and> ValidateExecEnv (ExEnv req) = Inr () \<and>
        TrimSpace (ExCmd req) \<noteq> [] \<and> m_flusher w")
      case True
      then obtain cwd e where c: "exec_cwd (ExCwd req) = Inr cwd" "checkFence run (cred (ExOwner req) (ExGeneration req)) (m_now w) = Some e"
        using False Decoded unfolding exec_admitted_def by (metis option.exhaust)
      then show ?thesis
        using True assms Decoded writeError_Status [of e] by (auto simp: handleExec_def Get_def BeginExec_cases)
    next
      case no: False
      then show ?thesis
        using assms(1,2) Decoded writeError_Status
        by (auto simp: handleExec_def Get_def split: if_splits sum.splits)
    qed
  qed (use assms(1,2) in \<open>auto simp: handleExec_def Get_def\<close>)
  then show thesis using refused by blast
qed

lemma exec_admitted_ok:
  assumes "exec_admitted cd w r run req cwd" and "runs m i = Some run" and "ID run = i"
  shows "Status (fst (handleExec cd rt w i r m)) = 200"
  using assms
  by (auto simp: handleExec_def Get_def exec_admitted_def BeginExec_cases split: prod.splits)

lemma mgr_call_shape: "\<exists>x. mgr_call f os m rs = (runs (snd x), x)"
  by (cases "with_rt f (m\<lparr>runs := rs\<rparr>)") (simp add: mgr_call_def Let_def)

lemma handlePutFileE:
  assumes "handlePutFile rt w i p r m = (resp, m')" and "runs m i = Some run" and "ID run = i"
  obtains (refused) "m' = m" and "Status resp \<in> {400, 404, 409, 500}"
  | (ran) c path err where "leaseCredFromQuery r = Inr c" and "ValidateWorkPath p = Inr path"
      and "checkFence run c (m_now w) = None"
      and "mgr_call (rt_WriteFile rt (ContainerID run) path (MaxBytesReader maxUpload (ReqBody r))) (m_others w) m
        (runs (counted i run m)) = (runs (snd err), err)"
      and "m' = (snd err)\<lparr>runs := finishExec i (runs (snd err))\<rparr>"
      and "resp = (case fst err of None \<Rightarrow> no_content | Some e \<Rightarrow> writeError e)"
proof (cases "\<exists>c path. leaseCredFromQuery r = Inr c \<and> ValidateWorkPath p = Inr path \<and> checkFence run c (m_now w) = None")
  case True
  then obtain c path where a: "leaseCredFromQuery r = Inr c" "ValidateWorkPath p = Inr path" "checkFence run c (m_now w) = None"
    by blast
  obtain err where e: "mgr_call (rt_WriteFile rt (ContainerID run) path (MaxBytesReader maxUpload (ReqBody r))) (m_others w) m
        (runs (counted i run m)) = (runs (snd err), err)"
    using mgr_call_shape by blast
  have "handlePutFile rt w i p r m = (case fst err of None \<Rightarrow> no_content | Some e \<Rightarrow> writeError e,
      (snd err)\<lparr>runs := finishExec i (runs (snd err))\<rparr>)"
    using assms(2,3) a e [unfolded counted_def]
    by (cases err) (simp add: handlePutFile_def Get_def Mgr_WriteFile_def Let_def split: option.splits)
  then show thesis using ran [OF a e] assms(1) by simp
next
  case False
  have "m' = m \<and> Status resp \<in> {400, 404, 409, 500}"
  proof (cases "\<exists>c path. leaseCredFromQuery r = Inr c \<and> ValidateWorkPath p = Inr path")
    case True
    then obtain c path e where "leaseCredFromQuery r = Inr c" "ValidateWorkPath p = Inr path" "checkFence run c (m_now w) = Some e"
      using False by (metis option.exhaust)
    then show ?thesis
      using assms writeError_Status [of e] by (auto simp: handlePutFile_def Get_def Mgr_WriteFile_def)
  next
    case no: False
    then show ?thesis
      using assms(1,2) writeError_Status by (auto simp: handlePutFile_def Get_def split: sum.splits)
  qed
  then show thesis using refused by blast
qed

text \<open>
  C6. A lease holds at the API: while a run has a live lease, an exec or an upload that does not carry
  the holder and the generation of that very lease is refused with a problem, which is 409 when nothing else is
  wrong with it, and it changes nothing: the runtime is not called and no counter moves.
\<close>

theorem lease_gates_api:
  assumes "runs m i = Some run" and "ID run = i" and "activeLease run (m_now w) = Some lease"
    and "\<And>req. dec_exec cd (ReqBody r) = Decoded req \<Longrightarrow> cred (ExOwner req) (ExGeneration req) \<noteq> cred (Holder lease) (Generation lease)"
    and "\<And>c. leaseCredFromQuery r = Inr c \<Longrightarrow> c \<noteq> cred (Holder lease) (Generation lease)"
  shows "snd (handleExec cd rt w i r m) = m \<and> Status (fst (handleExec cd rt w i r m)) \<in> {400, 404, 409, 500} \<and>
    snd (handlePutFile rt w i p r m) = m \<and> Status (fst (handlePutFile rt w i p r m)) \<in> {400, 404, 409, 500} \<and>
    ((\<exists>req cwd. dec_exec cd (ReqBody r) = Decoded req \<and> TrimSpace (ExCmd req) \<noteq> [] \<and> exec_cwd (ExCwd req) = Inr cwd \<and>
        ValidateExecEnv (ExEnv req) = Inr () \<and> m_flusher w) \<longrightarrow> Status (fst (handleExec cd rt w i r m)) = 409) \<and>
    ((\<exists>c path. leaseCredFromQuery r = Inr c \<and> ValidateWorkPath p = Inr path) \<longrightarrow>
      Status (fst (handlePutFile rt w i p r m)) = 409)"
proof -
  have held: "Status (writeError ErrLeaseHeld) = 409" by (simp add: writeError_def error_status_def)
  have x: "Status (fst (handleExec cd rt w i r m)) = 409"
    if "dec_exec cd (ReqBody r) = Decoded req" "TrimSpace (ExCmd req) \<noteq> []" "exec_cwd (ExCwd req) = Inr cwd"
      "ValidateExecEnv (ExEnv req) = Inr ()" "m_flusher w" for req cwd
  proof -
    have "checkFence run (cred (ExOwner req) (ExGeneration req)) (m_now w) = Some ErrLeaseHeld"
      using assms(3) assms(4) [OF that(1)] by (auto simp: checkFence_Some)
    then show ?thesis using that assms(1,2) held by (simp add: handleExec_def Get_def BeginExec_cases)
  qed
  have y: "Status (fst (handlePutFile rt w i p r m)) = 409"
    if "leaseCredFromQuery r = Inr c" "ValidateWorkPath p = Inr path" for c path
  proof -
    have "checkFence run c (m_now w) = Some ErrLeaseHeld"
      using assms(3) assms(5) [OF that(1)] by (cases c) (auto simp: checkFence_Some)
    then show ?thesis using that assms(1,2) held by (simp add: handlePutFile_def Get_def Mgr_WriteFile_def)
  qed
  obtain resp m' where e: "handleExec cd rt w i r m = (resp, m')" by fastforce
  have 1: "m' = m \<and> Status resp \<in> {400, 404, 409, 500}"
    using e assms(1,2)
  proof (cases rule: handleExecE)
    case (ran req cwd)
    then show ?thesis using assms(3,4) by (auto simp: exec_admitted_def checkFence_None)
  qed simp
  obtain resp2 m2 where p: "handlePutFile rt w i p r m = (resp2, m2)" by fastforce
  have "m2 = m \<and> Status resp2 \<in> {400, 404, 409, 500}"
    using p assms(1,2)
  proof (cases rule: handlePutFileE)
    case (ran c)
    then show ?thesis using assms(3,5) by (auto simp: checkFence_None)
  qed simp
  with 1 show ?thesis using e p x y by auto
qed

definition leased_run :: Run where
  "leased_run = warm_run\<lparr>Lease := Some \<lparr>Holder = ''me'', Generation = 1, LeaseExpiresAt = 1\<rparr>\<rparr>"

theorem lease_gates_api_witness:
  "snd (handleExec demo_codec (demo_rt (Inr []) None) demo_moment demo_id (demo_http ''t'' ''ls'')
     (demo_mgr [demo_id \<mapsto> leased_run])) = demo_mgr [demo_id \<mapsto> leased_run]"
proof -
  let ?m = "demo_mgr [demo_id \<mapsto> leased_run]" and ?r = "demo_http ''t'' ''ls''"
  have run: "runs ?m demo_id = Some leased_run" "ID leased_run = demo_id"
    by (simp_all add: demo_mgr_def leased_run_def warm_run_def)
  have lease: "activeLease leased_run (m_now demo_moment) = Some \<lparr>Holder = ''me'', Generation = 1, LeaseExpiresAt = 1\<rparr>"
    by (simp add: activeLease_def leased_run_def demo_moment_def)
  have 1: "cred (ExOwner req) (ExGeneration req) \<noteq> cred ''me'' 1" if "dec_exec demo_codec (ReqBody ?r) = Decoded req" for req
    using that by (auto simp: demo_codec_def)
  have 2: "c \<noteq> cred ''me'' 1" if "leaseCredFromQuery ?r = Inr c" for c
    using that by (auto simp: leaseCredFromQuery_def demo_http_def)
  show ?thesis
    using lease_gates_api [OF run lease, of demo_codec ?r "demo_rt (Inr []) None" "''x''"] 1 2 by simp
qed

section \<open>What an exec streams\<close>

lemma Session_Exec_result:
  "fst (Session_Exec rt others x cmd cwd env t m) = fst (rt_Exec rt (sess_container x) cmd cwd env t (rt_state m))"
  by (auto simp: Session_Exec_def ExecSession_Exec_def mgr_call_def with_rt_def Let_def split: prod.splits)

lemma show_int_no_CR: "CR \<notin> set (show_int n)"
proof -
  have "c \<noteq> CR" if "c \<in> set (show_nat k)" for c k
    using that show_nat_digits [of k] by (auto simp: list_all_iff is_digit_def less_eq_char_def)
  then show ?thesis by (auto simp: show_int_def)
qed


definition talking_rt :: "unit runtime" where
  "talking_rt = (demo_rt (Inr []) None)\<lparr>rt_Exec := \<lambda>c cmd cwd env t s. (([(''stdout'', ''hi'' @ [LF])], 0, False, None), s)\<rparr>"

lemma talking_exec:
  "Status (fst (handleExec demo_codec talking_rt demo_moment demo_id (demo_http ''t'' ''ls'') (demo_mgr [demo_id \<mapsto> warm_run]))) = 200"
proof (rule exec_admitted_ok)
  have t: "TrimSpace ''ls'' = ''ls''" by code_simp
  have v: "ValidateExecEnv [] = Inr ()" by (simp add: ValidateExecEnv_def)
  show "exec_admitted demo_codec demo_moment (demo_http ''t'' ''ls'') warm_run
      \<lparr>ExCmd = ''ls'', ExCwd = [], ExTimeoutSec = 5, ExEnv = [], ExOwner = [], ExGeneration = 0\<rparr> []"
    by (simp add: exec_admitted_def demo_codec_def demo_http_def demo_moment_def t v exec_cwd_def checkFence_def
        activeLease_def warm_run_def)
qed (simp_all add: demo_mgr_def warm_run_def)


lemma Docker_Exec_unlimited: "t \<le> 0 \<Longrightarrow> Docker_Exec cli f c cmd dir env t = Docker_Exec cli f c cmd dir env 0"
proof -
  assume "t \<le> 0"
  then have "execArgs c d cmd t fs = execArgs c d cmd 0 fs" "classifyExit k t = (k, False)" "classifyExit k 0 = (k, False)"
      "(0 < t) = False" "(0 < (0 :: duration)) = False" for d fs k
    by (simp_all add: execArgs_def classifyExit_def)
  then show ?thesis unfolding Docker_Exec_def by presburger
qed



section \<open>Uploads\<close>


lemma maxUpload_pos: "length ''hi'' \<le> maxUpload"
  by (simp add: maxUpload_def)


end
