(* ===== verification/Daemon_Correct.thy ===== *)
theory Daemon_Correct
  imports Daemon Server_Correct
begin

text \<open>
  What holds at the two ends of the daemon's life: the token survives restarts, the daemon starts with a
  working allowlist door or none at all, and its shutdown asks for the removal of every run.
\<close>

section \<open>The token\<close>

lemma digits32_visible: "visible (digits32 k n)"
proof -
  have "list_all (\<lambda>c. 32 < (of_char c :: nat) \<and> of_char c < (128 :: nat)) ulidAlphabet"
    unfolding ulidAlphabet_def by simp
  then show ?thesis using digits32_alphabet [of k n] by (auto simp: visible_def list_all_iff)
qed

lemma visible_append [simp]: "visible (a @ b) \<longleftrightarrow> visible a \<and> visible b"
  by (simp add: visible_def)

lemma TrimSpace_line:
  assumes "visible s" and "s \<noteq> []"
  shows "TrimSpace (s @ [LF]) = s"
proof -
  obtain c t where s: "s = c # t" using assms(2) by (cases s) auto
  have no: "\<not> HasPrefix (s @ [LF]) w" if "w \<in> set space_runes" for w
  proof
    assume "HasPrefix (s @ [LF]) w"
    then have "w \<noteq> [] \<and> hd w = c" using space_runes_bytes [OF that] by (cases w) (auto simp: HasPrefix_iff s)
    then show False
      using space_runes_bytes [OF that] assms(1) by (cases w) (auto simp: s visible_def space_byte_def)
  qed
  have 1: "trim_left_with space_runes (s @ [LF]) = s @ [LF]" by (rule trim_left_with_id) (use no in auto)
  have 2: "trim_left_with (map rev space_runes) (rev s) = rev s"
  proof (rule trim_left_with_id, intro ballI impI)
    fix w assume "w \<in> set (map rev space_runes)" and "w \<noteq> []"
    then have "list_all (\<lambda>c. space_byte (of_char c)) w" by (auto dest!: space_runes_bytes simp: list_all_iff)
    then show "\<not> HasPrefix (rev s) w" using assms(1) \<open>w \<noteq> []\<close> by (intro visible_no_space) auto
  qed
  let ?P = "\<lambda>w. w \<noteq> [] \<and> HasPrefix (LF # rev s) w"
  have only: "w = [LF]" if w: "w \<in> set (map rev space_runes)" "?P w" for w
  proof -
    obtain v where v: "w = LF # v" "HasPrefix (rev s) v" using w(2) by (cases w) (auto simp: HasPrefix_iff)
    have "list_all (\<lambda>c. space_byte (of_char c)) v"
      using w(1) v(1) by (auto dest!: space_runes_bytes simp: list_all_iff) (metis list.set_intros(2) set_rev)
    then have "v = []" using visible_no_space [of "rev s" v] assms(1) v(2) by auto
    then show ?thesis using v(1) by simp
  qed
  have "[LF] \<in> set (map rev space_runes)" by (auto simp: space_runes_def)
  then have "find ?P (map rev space_runes) \<noteq> None" by (auto simp: find_None_all)
  then obtain w where w: "find ?P (map rev space_runes) = Some w" by blast
  then have "w \<in> set (map rev space_runes) \<and> ?P w" by (auto simp: find_Some_iff)
  then have "w = [LF]" using only by blast
  then have "trim_left_with (map rev space_runes) (LF # rev s) = rev s"
    using w 2 by (subst trim_left_with.simps) simp
  then show ?thesis by (simp add: TrimSpace_def 1)
qed

text \<open>
  C22. A token, once handed out, is the token of every later start: it has at least 32 characters, the daemon
  reads the same one back whatever the clock and the random source say then, and a file that did not exist is
  made with mode 0600 (one that did keeps its mode).
\<close>

theorem token_survives_restart:
  assumes "LoadOrMintToken mkdir writable now now' (Some rnd) (Some rnd') path h = (Inr token, h')"
    and "0 \<le> now" and "now < 2 ^ 63" and "0 \<le> now'" and "now' < 2 ^ 63" and "length rnd = 10" and "length rnd' = 10"
  shows "32 \<le> length token \<and> LoadOrMintToken mkdir2 writable2 t t' r r' path h' = (Inr token, h') \<and>
    map_option snd (h' path) = Some (case h path of None \<Rightarrow> 384 | Some (_, mode) \<Rightarrow> mode)"
proof (cases "\<exists>data mode. h path = Some (data, mode) \<and> length (TrimSpace data) \<ge> 32")
  case True
  then show ?thesis using assms(1) by (auto simp: LoadOrMintToken_def)
next
  case False
  let ?v = "digits32 26 (stamp now * 2 ^ 80 + bytes_value rnd) @ digits32 26 (stamp now' * 2 ^ 80 + bytes_value rnd')"
  have token: "token = ?v" and h': "h' = h(path \<mapsto> (token @ [LF], case h path of None \<Rightarrow> 384 | Some (_, mode) \<Rightarrow> mode))"
    using assms(1) False NewULID_number [OF assms(2,3,6)] NewULID_number [OF assms(4,5,7)]
    by (auto simp: LoadOrMintToken_def split: option.splits if_splits)
  have len: "length token = 52" unfolding token by simp
  have "visible token" unfolding token by (simp only: visible_append digits32_visible simp_thms)
  moreover have "token \<noteq> []" using len by auto
  ultimately have "TrimSpace (token @ [LF]) = token" by (rule TrimSpace_line)
  then show ?thesis unfolding h' using len by (simp add: LoadOrMintToken_def)
qed

theorem token_survives_restart_witness:
  "LoadOrMintToken (\<lambda>d. False) (\<lambda>f. False) 9 9 None None ''/d/token'' [''/d/token'' \<mapsto> (demo_id @ demo_id @ [LF], 384)] =
     (Inr (demo_id @ demo_id), [''/d/token'' \<mapsto> (demo_id @ demo_id @ [LF], 384)])"
proof -
  have "LoadOrMintToken (\<lambda>d. True) (\<lambda>f. True) 0 0 (Some (replicate 10 0)) (Some (replicate 10 0)) ''/d/token'' Map.empty =
      (Inr (demo_id @ demo_id), [''/d/token'' \<mapsto> (demo_id @ demo_id @ [LF], 384)])"
    by (simp add: LoadOrMintToken_def demo_id_ulid)
  from token_survives_restart [OF this] show ?thesis by simp
qed

section \<open>Start\<close>

lemma start_egress_ok:
  assumes "start_egress k decode listen port allow tr = ((p, url), tr')"
  shows "case p of None \<Rightarrow> url = []
    | Some q \<Rightarrow> \<exists>a. url = ''http://'' @ a \<and> SharedURL q = url \<and> Base q = DefaultAllowlist @ allow \<and> listeners q = {a} \<and>
        sharedPx q = Some \<lparr>Allow = Base q, tunnels = []\<rparr> \<and> perRun q = Map.empty \<and> conns q = {}"
  using assms
  by (auto simp: start_egress_def Pool_Start_def new_pool_def SharedURL_def Let_def
      split: prod.splits option.splits sum.splits)

lemma sealed_spec: "ProxyURL (create_spec l i [] network req warm) = []"
  by (auto simp: create_spec_def base_spec_def Let_def split: option.splits prod.splits)

text \<open>
  C21. The daemon starts with a working door or none: a list that does not parse stops it before anything
  is touched; otherwise it starts with the token and no runs, with orphans asked for, and either the shared
  proxy is listening with exactly the built-in list and the validated entries of the deployment, and its address
  is what allowlist runs are given, or there is no proxy and no run is ever given an address of one.
\<close>

theorem serve_door_or_sealed:
  assumes "serve b opts h = (r, h')"
  shows "case ValidateAllowlist (be_unicode b) (ParseAllowlist (be_unicode b) (opt_egress_allow opts)) of
      Inl e \<Rightarrow> r = Inl (BadEgress e) \<and> h' = h
    | Inr allow \<Rightarrow> (\<forall>srv m. r = Inr (srv, m) \<longrightarrow>
        be_token b (opt_token_file opts) h = (Inr (Token srv), h') \<and> runs m = Map.empty \<and> history m = [] \<and>
        (\<exists>ok. Cmd [''ps'', ''-aq'', ''--filter'', ''label=teploy.sandbox=1''] ok \<in> set (rt_state m)) \<and>
        (case egress m of
           None \<Rightarrow> proxy_url m = [] \<and> (\<forall>l i network req warm. ProxyURL (create_spec l i (proxy_url m) network req warm) = [])
         | Some q \<Rightarrow> \<exists>a. proxy_url m = ''http://'' @ a \<and> SharedURL q = proxy_url m \<and> Base q = DefaultAllowlist @ allow \<and>
             listeners q = {a} \<and> sharedPx q = Some \<lparr>Allow = Base q, tunnels = []\<rparr> \<and> perRun q = Map.empty \<and> conns q = {}))"
proof (cases "ValidateAllowlist (be_unicode b) (ParseAllowlist (be_unicode b) (opt_egress_allow opts))")
  case (Inl e)
  then show ?thesis using assms by (simp add: serve_def)
next
  case (Inr allow)
  show ?thesis
  proof (simp only: Inr sum.case, intro allI impI)
    fix srv m
    assume r: "r = Inr (srv, m)"
    obtain t h2 where t: "be_token b (opt_token_file opts) h = (t, h2)" by fastforce
    obtain q url tr where e: "start_egress (be_docker b) (be_decode b) (be_listen b) (opt_proxy_port opts) allow [] = ((q, url), tr)"
      by (metis surj_pair)
    obtain n tr2 where sw: "SweepOrphans (be_docker b) tr = (n, tr2)" by fastforce
    have ps: "\<exists>ok. Cmd [''ps'', ''-aq'', ''--filter'', ''label=teploy.sandbox=1''] ok \<in> set tr2"
      using sw by (auto simp: SweepOrphans_def docker_def Let_def split: if_splits)
    have m: "t = Inr (Token srv)" "h2 = h'" "rt_state m = tr2" "runs m = Map.empty" "history m = []"
        "proxy_url m = url" "egress m = q"
      using assms r Inr t e sw by (auto simp: serve_def Let_def NewManager_def split: sum.splits if_splits)
    show "be_token b (opt_token_file opts) h = (Inr (Token srv), h') \<and> runs m = Map.empty \<and> history m = [] \<and>
        (\<exists>ok. Cmd [''ps'', ''-aq'', ''--filter'', ''label=teploy.sandbox=1''] ok \<in> set (rt_state m)) \<and>
        (case egress m of
           None \<Rightarrow> proxy_url m = [] \<and> (\<forall>l i network req warm. ProxyURL (create_spec l i (proxy_url m) network req warm) = [])
         | Some q \<Rightarrow> \<exists>a. proxy_url m = ''http://'' @ a \<and> SharedURL q = proxy_url m \<and> Base q = DefaultAllowlist @ allow \<and>
             listeners q = {a} \<and> sharedPx q = Some \<lparr>Allow = Base q, tunnels = []\<rparr> \<and> perRun q = Map.empty \<and> conns q = {})"
      using m t ps start_egress_ok [OF e] by (cases q) (auto simp: sealed_spec)
  qed
qed

definition demo_boot :: boot_env where
  "demo_boot = \<lparr>be_unicode = (\<lambda>s. s), be_docker = (\<lambda>tr args. \<lparr>cli_ok = True, cli_text = ''true''\<rparr>),
     be_decode = (\<lambda>t. Some [[(''10.0.0.0/8'', ''10.0.0.1'')]]), be_listen = (\<lambda>a. Some a),
     be_token = (\<lambda>f h. (Inr ''secret'', h)), be_disk = disk two_runs, be_hostname = ''box'', be_version = ''dev''\<rparr>"

definition demo_opts :: options where
  "demo_opts = \<lparr>opt_egress_allow = [], opt_token_file = ''/t'', opt_proxy_port = ''7443'', opt_cache_root = [], opt_cache_max_gb = 20\<rparr>"

theorem serve_door_or_sealed_witness:
  "\<exists>srv m q. serve demo_boot demo_opts Map.empty = (Inr (srv, m), Map.empty) \<and> egress m = Some q \<and>
     Base q = DefaultAllowlist \<and> listeners q = {''10.0.0.1:7443''}"
proof -
  have v: "ValidateAllowlist u (ParseAllowlist u []) = Inr []" for u by (simp add: ParseAllowlist_def FieldsFunc_def)
  have j: "JoinHostPort ''10.0.0.1'' ''7443'' = ''10.0.0.1:7443''" by code_simp
  have t: "TrimSpace ''true'' = ''true''" by (rule TrimSpace_visible) (simp add: visible_def)
  have e: "start_egress (be_docker demo_boot) (be_decode demo_boot) (be_listen demo_boot) ''7443'' [] [] =
      ((Some (fst (Pool_Start ''7443'' (Some ''10.0.0.1:7443'') (new_pool DefaultAllowlist ''10.0.0.1''))),
        ''http://10.0.0.1:7443''),
       snd (start_egress (be_docker demo_boot) (be_decode demo_boot) (be_listen demo_boot) ''7443'' [] []))"
    by (simp add: start_egress_def demo_boot_def EnsureEgressNetwork_def EgressGateway_def docker_def t j Let_def
        Pool_Start_def SharedURL_def)
  obtain srv m where s: "serve demo_boot demo_opts Map.empty = (Inr (srv, m), Map.empty)"
    and q: "egress m = Some (fst (Pool_Start ''7443'' (Some ''10.0.0.1:7443'') (new_pool DefaultAllowlist ''10.0.0.1'')))"
    using e by (fastforce simp: serve_def demo_boot_def demo_opts_def v NewManager_def Let_def split: prod.splits)
  have "listeners (fst (Pool_Start ''7443'' (Some ''10.0.0.1:7443'') (new_pool DefaultAllowlist ''10.0.0.1''))) = {''10.0.0.1:7443''}"
    by (simp add: Pool_Start_def new_pool_def Let_def)
  with serve_door_or_sealed [OF s] s q show ?thesis by (auto simp: demo_boot_def demo_opts_def v)
qed

section \<open>Shutdown\<close>

lemma Destroy_fields:
  assumes "runs m i = Some run"
  obtains ok where "history (snd (Destroy l rt (\<lambda>m. m) i m)) = history m @ [Removed (ContainerID run) ok]"
    and "runs (snd (Destroy l rt (\<lambda>m. m) i m)) = (if ok then (runs m)(i := None) else (runs m)(i \<mapsto> run))"
proof -
  let ?m = "m\<lparr>runs := (runs m)(i := None)\<rparr>"
  obtain e m1 where r: "remove_container rt (ContainerID run) ?m = (e, m1)" by fastforce
  have d: "Destroy l rt (\<lambda>m. m) i m = finish_destroy l rt i run ?m" using assms by (simp add: Destroy_def untrack_def)
  have m1: "history m1 = history m @ [Removed (ContainerID run) (e = None)]" "runs m1 = (runs m)(i := None)"
    using r by (auto simp: remove_container_def split: prod.splits)
  show thesis
    by (rule that [of "e = None"]; cases e) (simp_all add: d finish_destroy_def r m1)
qed

lemma destroy_all_fields:
  assumes "distinct (map ID rs)" and "\<And>run. run \<in> set rs \<Longrightarrow> runs m (ID run) = Some run"
    and "m' = fold (\<lambda>run m. snd (Destroy l rt (\<lambda>m. m) (ID run) m)) rs m"
  shows "(\<forall>i. i \<notin> ID ` set rs \<longrightarrow> runs m' i = runs m i) \<and> set (history m) \<subseteq> set (history m') \<and>
    (\<forall>run \<in> set rs. (runs m' (ID run) = None \<or> runs m' (ID run) = Some run) \<and>
       Removed (ContainerID run) (runs m' (ID run) = None) \<in> set (history m'))"
  using assms
proof (induction rs arbitrary: m)
  case (Cons run rs)
  let ?m = "snd (Destroy l rt (\<lambda>m. m) (ID run) m)"
  obtain ok where e: "history ?m = history m @ [Removed (ContainerID run) ok]"
      "runs ?m = (if ok then (runs m)(ID run := None) else runs m)"
    using Destroy_fields [of m "ID run" run l rt] Cons.prems(2) [of run] by (metis (full_types) fun_upd_triv list.set_intros(1))
  have new: "ID run \<notin> ID ` set rs" using Cons.prems(1) by simp
  have keep: "runs ?m (ID r) = Some r" if "r \<in> set rs" for r
  proof -
    have "ID r \<noteq> ID run" using new imageI [OF that, of ID] by metis
    then show ?thesis using e(2) Cons.prems(2) [of r] that by simp
  qed
  have dist: "distinct (map ID rs)" and m': "m' = fold (\<lambda>run m. snd (Destroy l rt (\<lambda>m. m) (ID run) m)) rs ?m"
    using Cons.prems by simp_all
  note IH = Cons.IH [OF dist keep m']
  have "runs m' (ID run) = runs ?m (ID run)" using IH new by blast
  then have "(runs m' (ID run) = None \<or> runs m' (ID run) = Some run) \<and>
      Removed (ContainerID run) (runs m' (ID run) = None) \<in> set (history m')"
    using e IH Cons.prems(2) [of run] by auto
  then show ?case using IH e by auto
qed simp

text \<open>
  C20. A shutdown asks for the removal of every run's container, and what is left afterwards is exactly what
  docker refused: a run is gone when its removal was reported as done, and still tracked, unchanged, when not;
  the number reported is the number of those.
\<close>

theorem shutdown_complete:
  assumes "shutdown l rt ids order m = (n, m')" and "distinct ids" and "set ids = dom (runs m)"
    and "\<And>i run. runs m i = Some run \<Longrightarrow> ID run = i"
    and "distinct (order (runs m'))" and "set (order (runs m')) = dom (runs m')"
  shows "n = card (dom (runs m')) \<and> runs m' \<subseteq>\<^sub>m runs m \<and>
    (\<forall>i run. runs m i = Some run \<longrightarrow> Removed (ContainerID run) (runs m' i = None) \<in> set (history m'))"
proof -
  have m': "m' = fold (\<lambda>run m. snd (Destroy l rt (\<lambda>m. m) (ID run) m)) (List ids (runs m)) m"
    and n: "n = length (order (runs m'))"
    using assms(1) by (auto simp: shutdown_def DestroyAll_def Let_def List_def)
  have ids: "map ID (List ids (runs m)) = ids"
    using assms(3,4) by (auto simp: List_def comp_def intro!: map_idI)
  have tracked: "runs m (ID run) = Some run" if "run \<in> set (List ids (runs m))" for run
    using that assms(3,4) by (auto simp: List_def)
  have "distinct (map ID (List ids (runs m)))" unfolding ids by (rule assms(2))
  note f = destroy_all_fields [OF this tracked m']
  have all: "run \<in> set (List ids (runs m))" if "runs m i = Some run" for i run
    using that assms(3) by (force simp: List_def)
  have "n = card (dom (runs m'))" using n assms(5,6) distinct_card by metis
  moreover have "runs m' \<subseteq>\<^sub>m runs m"
  proof (unfold map_le_def, rule ballI)
    fix i assume i: "i \<in> dom (runs m')"
    show "runs m' i = runs m i"
    proof (cases "i \<in> ID ` set (List ids (runs m))")
      case True
      then obtain run where "run \<in> set (List ids (runs m))" "ID run = i" by blast
      then show ?thesis using f tracked i by auto
    qed (use f in blast)
  qed
  moreover have "Removed (ContainerID run) (runs m' i = None) \<in> set (history m')" if r: "runs m i = Some run" for i run
    using f all [OF r] assms(4) [OF r] by blast
  ultimately show ?thesis by blast
qed

theorem shutdown_complete_witness:
  "runs (snd (shutdown demo_json (demo_rt (Inr []) (Some ErrNotFound)) [demo_id] (\<lambda>rs. if rs demo_id = None then [] else [demo_id])
     (demo_mgr [demo_id \<mapsto> warm_run]))) \<subseteq>\<^sub>m [demo_id \<mapsto> warm_run]"
proof -
  let ?m = "demo_mgr [demo_id \<mapsto> warm_run]" and ?o = "\<lambda>rs :: registry. if rs demo_id = None then [] else [demo_id]"
  obtain n m' where s: "shutdown demo_json (demo_rt (Inr []) (Some ErrNotFound)) [demo_id] ?o ?m = (n, m')" by fastforce
  have r: "runs ?m = [demo_id \<mapsto> warm_run]" by (simp add: demo_mgr_def)
  have i: "ID warm_run = demo_id" by (simp add: warm_run_def)
  have m': "runs m' = [demo_id \<mapsto> warm_run]"
    using s by (auto simp: shutdown_def DestroyAll_def List_def demo_mgr_def i Destroy_def untrack_def finish_destroy_def
        remove_container_def demo_rt_def Let_def)
  from shutdown_complete [OF s] m' r i show ?thesis by (simp add: s split: if_splits)
qed

end
