(* ===== verification/Api_Steps.thy ===== *)
theory Api_Steps
  imports Daemon_Correct
begin

text \<open>
  The API as a client of the daemon: every request is a sequence of steps of \<open>mstep\<close>, so that what holds of
  every reachable state of the daemon holds after any history of requests from its start.
\<close>

section \<open>Each handler\<close>

abbreviation msteps :: "lib \<Rightarrow> 'r runtime \<Rightarrow> 'r daemon_state \<Rightarrow> 'r daemon_state \<Rightarrow> bool" where
  "msteps l rt \<equiv> (mstep l rt)\<^sup>*\<^sup>*"

lemma handleCreate_steps:
  assumes "handleCreate cd l rt w s r m = (resp, m')"
    and "\<And>i. NewULID (m_now w) (m_random w) = Inr i \<Longrightarrow> runs m i = None \<and> i \<notin> fst ` set d"
  shows "msteps l rt (m, d) (m', d)"
proof (cases "dec_create cd (ReqBody r)")
  case (Decoded req)
  obtain x m2 where c: "Create l rt (m_booting w) (m_now w) (m_random w) (m_listener w) req m = (x, m2)" by fastforce
  then have "m' = m2" using assms(1) Decoded by (auto simp: handleCreate_def split: sum.splits)
  then show ?thesis using mstep.create [OF c assms(2)] by blast
qed (use assms(1) in \<open>auto simp: handleCreate_def\<close>)

lemma Destroy_steps:
  assumes "Destroy l rt (\<lambda>m. m) i m = (e, m')" shows "msteps l rt (m, d) (m', d)"
proof (cases "runs m i")
  case None
  then show ?thesis using assms by (simp add: Destroy_def untrack_def)
next
  case (Some run)
  let ?m = "m\<lparr>runs := (runs m)(i := None)\<rparr>"
  have u: "untrack i m = (Inr run, ?m)" using Some by (simp add: untrack_def)
  have f: "finish_destroy l rt i run ?m = (e, m')" using assms u by (simp add: Destroy_def)
  have "mstep l rt (m, d) (?m, (i, run) # d)" using mstep.leave [OF u] .
  moreover have "mstep l rt (?m, (i, run) # d) (m', d)"
    using mstep.left [OF _ f, of "(i, run) # d"] by simp
  ultimately show ?thesis by (rule converse_rtranclp_into_rtranclp [OF _ r_into_rtranclp])
qed

lemma handleDestroy_steps:
  "handleDestroy l rt w i m = (resp, m') \<Longrightarrow> m_others w = (\<lambda>m. m) \<Longrightarrow> msteps l rt (m, d) (m', d)"
  by (auto simp: handleDestroy_def intro: Destroy_steps split: prod.splits option.splits)

lemma handleSnapshot_steps: "handleSnapshot l rt w s i m = (resp, m') \<Longrightarrow> msteps l rt (m, d) (m', d)"
  by (auto simp: handleSnapshot_def intro: mstep.snapshot split: prod.splits sum.splits)

lemma handleDeleteSnapshot_steps: "handleDeleteSnapshot rt r m = (resp, m') \<Longrightarrow> msteps l rt (m, d) (m', d)"
  by (auto simp: handleDeleteSnapshot_def intro: mstep.delete_snapshot split: prod.splits option.splits if_splits)

lemma lease_steps:
  "handleLeaseAcquire cd w s i r m = (resp, m') \<Longrightarrow> msteps l rt (m, d) (m', d)"
  "handleLeaseRenew cd w s i r m = (resp, m') \<Longrightarrow> msteps l rt (m, d) (m', d)"
  "handleLeaseRelease cd i r m = (resp, m') \<Longrightarrow> msteps l rt (m, d) (m', d)"
proof -
  show "handleLeaseAcquire cd w s i r m = (resp, m') \<Longrightarrow> msteps l rt (m, d) (m', d)"
    by (auto simp: handleLeaseAcquire_def Let_def intro: mstep.acquire split: prod.splits sum.splits decoded.splits)
  show "handleLeaseRenew cd w s i r m = (resp, m') \<Longrightarrow> msteps l rt (m, d) (m', d)"
    by (auto simp: handleLeaseRenew_def Let_def intro: mstep.renew split: prod.splits sum.splits decoded.splits)
  show "handleLeaseRelease cd i r m = (resp, m') \<Longrightarrow> msteps l rt (m, d) (m', d)"
    by (auto simp: handleLeaseRelease_def Let_def intro: mstep.release split: prod.splits sum.splits decoded.splits)
qed

lemma warm_steps:
  "handleWarmCommit cd l w s i r m = (resp, m') \<Longrightarrow> m_others w = (\<lambda>m. m) \<Longrightarrow> msteps l rt (m, d) (m', d)"
  "handleWarmInfo l s i m = (resp, m') \<Longrightarrow> msteps l rt (m, d) (m', d)"
  "handleWarmGet l s repo m = (resp, m') \<Longrightarrow> msteps l rt (m, d) (m', d)"
  "handleWarmDrop l repo m = (resp, m') \<Longrightarrow> msteps l rt (m, d) (m', d)"
proof -
  show "handleWarmCommit cd l w s i r m = (resp, m') \<Longrightarrow> m_others w = (\<lambda>m. m) \<Longrightarrow> msteps l rt (m, d) (m', d)"
    by (auto simp: handleWarmCommit_def Let_def intro: mstep.commit_warm split: prod.splits sum.splits decoded.splits)
  show "handleWarmInfo l s i m = (resp, m') \<Longrightarrow> msteps l rt (m, d) (m', d)"
    by (auto simp: handleWarmInfo_def intro: mstep.warm_hash split: prod.splits sum.splits)
  show "handleWarmGet l s repo m = (resp, m') \<Longrightarrow> msteps l rt (m, d) (m', d)"
    by (auto simp: handleWarmGet_def intro: mstep.warm_manifest split: prod.splits sum.splits)
  show "handleWarmDrop l repo m = (resp, m') \<Longrightarrow> msteps l rt (m, d) (m', d)"
    by (auto simp: handleWarmDrop_def intro: mstep.drop_warm split: prod.splits option.splits)
qed

lemma Session_Exec_steps:
  assumes "Session_Exec rt (\<lambda>m. m) x cmd cwd env t m = (res, m')" shows "msteps l rt (m, d) (m', d)"
proof -
  obtain y m1 where c: "with_rt (rt_Exec rt (sess_container x) cmd cwd env t) m = (y, m1)" by fastforce
  have "m' = m1\<lparr>runs := finishExec (sess_run x) (runs m1)\<rparr>"
    using assms c by (simp add: Session_Exec_def ExecSession_Exec_def mgr_call_def)
  then show ?thesis
    using mstep.exec_call [OF c, of l d] mstep.finish_exec [of l rt m1 d "sess_run x"] by auto
qed

lemma handleExec_shape:
  assumes "handleExec cd rt w i r m = (resp, m')" and "m_others w = (\<lambda>m. m)"
  shows "m' = m \<or> (\<exists>j c rs e. BeginExec (m_now w) j c (runs m) = (rs, e) \<and> (m' = m\<lparr>runs := rs\<rparr> \<or>
    (\<exists>x cmd cwd env t res. Session_Exec rt (\<lambda>m. m) x cmd cwd env t (m\<lparr>runs := rs\<rparr>) = (res, m'))))"
proof (cases "\<exists>run req. runs m i = Some run \<and> dec_exec cd (ReqBody r) = Decoded req")
  case False
  then show ?thesis using assms(1) by (auto simp: handleExec_def Get_def split: option.splits decoded.splits)
next
  case True
  then obtain run req where run: "runs m i = Some run" "dec_exec cd (ReqBody r) = Decoded req" by blast
  obtain rs x where b: "BeginExec (m_now w) (ID run) (cred (ExOwner req) (ExGeneration req)) (runs m) = (rs, x)" by fastforce
  show ?thesis
  proof (cases "m' = m \<or> m' = m\<lparr>runs := rs\<rparr>")
    case True
    then show ?thesis using b by blast
  next
    case False
    obtain cwd where cwd: "exec_cwd (ExCwd req) = Inr cwd"
      using False assms(1) run by (cases "exec_cwd (ExCwd req)") (auto simp: handleExec_def Get_def split: if_splits)
    obtain u where env: "ValidateExecEnv (ExEnv req) = Inr u"
      using False assms(1) run cwd
      by (cases "ValidateExecEnv (ExEnv req)") (auto simp: handleExec_def Get_def split: if_splits)
    obtain z where z: "x = Inr z"
      using False assms(1) run cwd env b by (cases x) (auto simp: handleExec_def Get_def split: if_splits)
    obtain res m2 where s: "Session_Exec rt (\<lambda>m. m) z (ExCmd req) cwd (ExEnv req) (exec_timeout (ExTimeoutSec req))
        (m\<lparr>runs := rs\<rparr>) = (res, m2)" by fastforce
    have "m' = m2"
      using False assms run cwd env b z s by (auto simp: handleExec_def Get_def split: if_splits prod.splits)
    then show ?thesis using b s by blast
  qed
qed

lemma handleExec_steps:
  assumes "handleExec cd rt w i r m = (resp, m')" and "m_others w = (\<lambda>m. m)"
  shows "msteps l rt (m, d) (m', d)"
  using handleExec_shape [OF assms]
proof (elim disjE exE conjE)
  fix j c rs e x cmd cwd env t res
  assume "BeginExec (m_now w) j c (runs m) = (rs, e)"
    and s: "Session_Exec rt (\<lambda>m. m) x cmd cwd env t (m\<lparr>runs := rs\<rparr>) = (res, m')"
  then have "mstep l rt (m, d) (m\<lparr>runs := rs\<rparr>, d)" by (auto intro: mstep.begin_exec)
  then show ?thesis using Session_Exec_steps [OF s, of l d] by (rule converse_rtranclp_into_rtranclp)
qed (auto intro: mstep.begin_exec)

text \<open>An upload counts like an exec: its admission is the registry step of \<open>BeginExec\<close>.\<close>

lemma Mgr_WriteFile_steps:
  assumes "Mgr_WriteFile rt (\<lambda>m. m) now i c path data m = (e, m')" shows "msteps l rt (m, d) (m', d)"
proof (cases "\<exists>run. runs m i = Some run \<and> checkFence run c now = None")
  case False
  then show ?thesis using assms by (auto simp: Mgr_WriteFile_def split: option.splits)
next
  case True
  then obtain run where run: "runs m i = Some run" "checkFence run c now = None" by blast
  let ?m = "counted i run m"
  have b: "BeginExec now i c (runs m) = (runs ?m, Inr \<lparr>sess_run = i, sess_container = ContainerID run\<rparr>)"
    using run by (simp add: BeginExec_cases)
  obtain y m1 where w: "with_rt (rt_WriteFile rt (ContainerID run) path data) ?m = (y, m1)" by fastforce
  have m': "m' = m1\<lparr>runs := finishExec i (runs m1)\<rparr>"
    using assms run w by (simp add: Mgr_WriteFile_def mgr_call_def counted_def)
  have "mstep l rt (m, d) (?m, d)" using mstep.begin_exec [OF b, of l rt d] by (simp add: counted_runs)
  moreover have "mstep l rt (?m, d) (m1, d)" using mstep.write_call [OF w] .
  moreover have "mstep l rt (m1, d) (m', d)" unfolding m' by (rule mstep.finish_exec)
  ultimately show ?thesis by (meson converse_rtranclp_into_rtranclp rtranclp.rtrancl_refl)
qed

lemma handlePutFile_steps:
  "handlePutFile rt w i p r m = (resp, m') \<Longrightarrow> m_others w = (\<lambda>m. m) \<Longrightarrow> msteps l rt (m, d) (m', d)"
  by (auto simp: handlePutFile_def intro: Mgr_WriteFile_steps split: sum.splits prod.splits option.splits)

lemma handleGetFile_steps: "handleGetFile rt i p m = (resp, m') \<Longrightarrow> msteps l rt (m, d) (m', d)"
  by (auto simp: handleGetFile_def Mgr_ReadFile_def intro: mstep.read_call split: sum.splits prod.splits)

section \<open>Any history of requests\<close>

text \<open>The moment of a request that is served alone; the identifiers the daemon mints are new.\<close>

definition fresh_id :: "'r moment \<Rightarrow> 'r daemon_state \<Rightarrow> bool" where
  "fresh_id w s \<longleftrightarrow> (case NewULID (m_now w) (m_random w) of
     Inl _ \<Rightarrow> True | Inr i \<Rightarrow> runs (fst s) i = None \<and> i \<notin> fst ` set (snd s))"

lemma auth_cases: "auth s r h m = (resp, m') \<Longrightarrow> m' = m \<or> h m = (resp, m')"
  by (auto simp: auth_def split: if_splits)

lemma Handler_steps:
  assumes "Handler cd l rt w s r m = (resp, m')" and "m_others w = (\<lambda>m. m)" and "fresh_id w (m, d)"
  shows "msteps l rt (m, d) (m', d)"
proof (cases "route (Method r) (Segments r)")
  case None
  then show ?thesis using assms(1) by (simp add: Handler_def)
next
  case (Some ro)
  have fresh: "NewULID (m_now w) (m_random w) = Inr i \<Longrightarrow> runs m i = None \<and> i \<notin> fst ` set d" for i
    using assms(3) by (simp add: fresh_id_def)
  have list: "handleList w s m = (resp, m') \<Longrightarrow> m' = m" by (simp add: handleList_def)
  note steps = handleCreate_steps [OF _ fresh] handleDestroy_steps handleSnapshot_steps handleDeleteSnapshot_steps
    lease_steps warm_steps handleExec_steps handlePutFile_steps handleGetFile_steps
  show ?thesis
    using assms(1,2) Some list
    by (cases ro) (auto simp: Handler_def dest!: auth_cases intro: steps)
qed


lemma serve_history: "serve b opts h = (Inr (srv, m), h') \<Longrightarrow> history m = []"
  by (auto simp: serve_def NewManager_def Let_def split: sum.splits prod.splits if_splits)

text \<open>The requests of a life of the daemon, each with its moment.\<close>

fun serve_all :: "codec \<Rightarrow> lib \<Rightarrow> 'r runtime \<Rightarrow> Server \<Rightarrow> ('r moment \<times> http_req) list \<Rightarrow> 'r mgr \<Rightarrow> 'r mgr" where
  "serve_all cd l rt s [] m = m"
| "serve_all cd l rt s ((w, r) # rest) m = serve_all cd l rt s rest (snd (Handler cd l rt w s r m))"

fun all_fresh :: "codec \<Rightarrow> lib \<Rightarrow> 'r runtime \<Rightarrow> Server \<Rightarrow> ('r moment \<times> http_req) list \<Rightarrow> 'r mgr \<Rightarrow> bool" where
  "all_fresh cd l rt s [] m \<longleftrightarrow> True"
| "all_fresh cd l rt s ((w, r) # rest) m \<longleftrightarrow> fresh_id w (m, []) \<and> all_fresh cd l rt s rest (snd (Handler cd l rt w s r m))"

lemma serve_all_steps:
  "all_fresh cd l rt s rs m \<Longrightarrow> (\<And>w r. (w, r) \<in> set rs \<Longrightarrow> m_others w = (\<lambda>m. m)) \<Longrightarrow>
     msteps l rt (m, []) (serve_all cd l rt s rs m, [])"
proof (induction cd l rt s rs m rule: serve_all.induct)
  case (2 cd l rt s w r rest m)
  obtain resp m2 where h: "Handler cd l rt w s r m = (resp, m2)" by fastforce
  have "msteps l rt (m, []) (m2, [])" by (rule Handler_steps [OF h]) (use 2(2,3) in auto)
  moreover have "msteps l rt (m2, []) (serve_all cd l rt s rest m2, [])"
    using 2(1) h 2(2) 2(3) by (metis all_fresh.simps(2) list.set_intros(2) snd_conv)
  ultimately show ?case using h by simp
qed simp


section \<open>One life\<close>

text \<open>A daemon that starts, serves one create, and is asked to list its runs without the token.\<close>

definition create_codec :: codec where
  "create_codec = demo_codec\<lparr>dec_create := \<lambda>b. Decoded cold_req\<rparr>"

definition create_moment :: "'r moment" where
  "create_moment = demo_moment\<lparr>m_random := Some (replicate 10 0)\<rparr>"

definition api_request :: "meth \<Rightarrow> string \<Rightarrow> http_req" where
  "api_request me token = \<lparr>Method = me, Segments = [''v1'', ''runs''], Authorization = ''Bearer '' @ token, Query = (\<lambda>k. []), ReqBody = []\<rparr>"

lemma obliging_create: "docker_create obliging_env spec tr =
    (Inr ''true'', snd (docker_create obliging_env spec tr))"
proof -
  have t: "TrimSpace ''true'' = ''true''" by (rule TrimSpace_visible) (simp add: visible_def)
  let ?k = "\<lambda>(tr :: event list) (args :: string list). \<lparr>cli_ok = True, cli_text = ''true''\<rparr>"
  have "waitRunning (Suc n) ts 0 dl ?k c tr = Some (None, snd (docker ?k [''inspect'', ''-f'', ''{{.State.Running}}'', c] tr))"
    for n ts dl c tr by (simp add: docker_def t Let_def)
  from this [of 301] have "waitRunning 302 ts 0 dl ?k c tr =
      Some (None, snd (docker ?k [''inspect'', ''-f'', ''{{.State.Running}}'', c] tr))" for ts dl c tr by simp
  then show ?thesis by (simp add: docker_create_def obliging_env_def Docker_Create_def docker_def t Let_def)
qed

lemma cold_check: "check_create demo_json b cold_req = Inr (NetworkNone, [], 60 * second)"
  by (cases b) (simp only:, code_simp)+

lemma cold_create_any:
  "\<exists>run m'. Create demo_json (docker_runtime obliging_env) bo 0 (Some (replicate 10 0)) li cold_req m = (Inr run, m') \<and>
     history m' = history m @ [Started ''true'' (create_spec demo_json demo_id (proxy_url m) NetworkNone cold_req None)]"
proof -
  have w: "ReqWarm cold_req = None" by (simp add: cold_req_def)
  have r: "rt_Create (docker_runtime obliging_env) spec tr = (Inr ''true'', snd (docker_create obliging_env spec tr))" for spec tr
    by (simp add: docker_runtime_def) (metis obliging_create)
  show ?thesis
    by (simp add: Create_def cold_check demo_id_ulid prepare_warm_def w open_private_def start_container_def run_container_def r Let_def)
qed

lemma created_over_api:
  assumes "Token s = ''secret''"
  shows "history (snd (Handler create_codec demo_json (docker_runtime obliging_env) create_moment s (api_request POST ''secret'') m)) =
    history m @ [Started ''true'' (create_spec demo_json demo_id (proxy_url m) NetworkNone cold_req None)]"
proof -
  obtain run m' where c: "Create demo_json (docker_runtime obliging_env) undisturbed 0 (Some (replicate 10 0)) None cold_req m = (Inr run, m')"
    and h: "history m' = history m @ [Started ''true'' (create_spec demo_json demo_id (proxy_url m) NetworkNone cold_req None)]"
    using cold_create_any by blast
  have "authorized s (api_request POST ''secret'')" using assms by (simp add: authorized_iff api_request_def)
  then have "Handler create_codec demo_json (docker_runtime obliging_env) create_moment s (api_request POST ''secret'') m =
      handleCreate create_codec demo_json (docker_runtime obliging_env) create_moment s (api_request POST ''secret'') m"
    by (simp add: Handler_def auth_def api_request_def route_def)
  then show ?thesis using c h by (simp add: handleCreate_def create_codec_def create_moment_def demo_moment_def)
qed



end
